theory Spec2Isabelle
  imports Main "HOL-Library.AList"
begin

section \<open>JavaScript values used by the parser\<close>

text \<open>
  Strings are lists of 8-bit code units, so the model covers manuf texts and addresses
  whose code units lie below 256. Numbers are the results of \<open>parseInt\<close> and of
  \<open>length * 4\<close>: an exact integer or \<open>NaN\<close> (exact for magnitudes below
  \<open>2^53\<close>, which is every bit count of up to fifteen digits). BigInts are integers
  of at most \<open>2^30\<close> bits, the limit of V8, the engine of Node: a shift that would
  give more raises a RangeError.
\<close>

datatype js_error =
    SysError string
  | SyntaxError
  | RangeError
  | ZlibError
  | HttpError int
  | TransportError
  | PlainError string

datatype number = NaN | Num int

definition TAB :: char where
  "TAB = CHR 0x09"

definition LF :: char where
  "LF = CHR 0x0A"

definition CR :: char where
  "CR = CHR 0x0D"

text \<open>
  The code units below 256 that \<open>String.prototype.trim\<close>, the regular expression class
  \<open>\s\<close> and \<open>StringToBigInt\<close> treat as white space: TAB, LF, VT, FF, CR, SP, NBSP.
\<close>

definition js_ws :: "char \<Rightarrow> bool" where
  "js_ws c = (c = CHR 0x09 \<or> c = CHR 0x0A \<or> c = CHR 0x0B \<or> c = CHR 0x0C \<or> c = CHR 0x0D
     \<or> c = CHR 0x20 \<or> c = CHR 0xA0)"

definition js_trim :: "string \<Rightarrow> string" where
  "js_trim s = rev (dropWhile js_ws (rev (dropWhile js_ws s)))"

text \<open>\<open>s.split(c)\<close> for a one-character separator: always at least one piece.\<close>

fun split_on :: "char \<Rightarrow> string \<Rightarrow> string list" where
  "split_on c [] = [[]]"
| "split_on c (x # xs) =
     (if x = c then [] # split_on c xs
      else (case split_on c xs of
              [] \<Rightarrow> [[x]]
            | p # ps \<Rightarrow> (x # p) # ps))"

text \<open>\<open>s.split(/\s+/)\<close>: a maximal run of white space separates two pieces.\<close>

function split_ws :: "string \<Rightarrow> string list" where
  "split_ws [] = [[]]"
| "split_ws (x # xs) =
     (if js_ws x then [] # split_ws (dropWhile js_ws xs)
      else (case split_ws xs of
              [] \<Rightarrow> [[x]]
            | p # ps \<Rightarrow> (x # p) # ps))"
  by pat_completeness auto
termination
  by (relation "measure length") (auto simp: length_dropWhile_le le_imp_less_Suc)

text \<open>
  \<open>text.split(/\r?\n/)\<close>: the text is cut at every LF, and a piece that an LF ends
  loses one CR before that LF.
\<close>

definition chop_cr :: "string \<Rightarrow> string" where
  "chop_cr s = (if s \<noteq> [] \<and> last s = CR then butlast s else s)"

definition split_lines :: "string \<Rightarrow> string list" where
  "split_lines txt = (let ps = split_on LF txt in map chop_cr (butlast ps) @ [last ps])"

text \<open>\<open>s.replace(/[-:.]/g, '')\<close>.\<close>

definition is_sep :: "char \<Rightarrow> bool" where
  "is_sep c = (c = CHR ''-'' \<or> c = CHR '':'' \<or> c = CHR ''.'')"

definition strip_seps :: "string \<Rightarrow> string" where
  "strip_seps s = filter (\<lambda>c. \<not> is_sep c) s"

text \<open>
  \<open>toUpperCase\<close> on the letters a to z. A code unit from 128 to 255 is left as it is,
  where JavaScript maps some of them to other letters (and \<open>0xDF\<close> to \<open>SS\<close>): it maps
  none of them to a digit or to a letter A to F, so the tests below reject a string that
  holds one either way, and the upper-cased string is used for nothing else.
\<close>

definition upper_char :: "char \<Rightarrow> char" where
  "upper_char c =
     (if 97 \<le> (of_char c :: nat) \<and> (of_char c :: nat) \<le> 122
      then char_of ((of_char c :: nat) - 32) else c)"

definition toUpperCase :: "string \<Rightarrow> string" where
  "toUpperCase s = map upper_char s"

definition is_digit :: "char \<Rightarrow> bool" where
  "is_digit c = (48 \<le> (of_char c :: nat) \<and> (of_char c :: nat) \<le> 57)"

text \<open>The character class \<open>[0-9A-F]\<close>.\<close>

definition is_upper_hex :: "char \<Rightarrow> bool" where
  "is_upper_hex c = (is_digit c \<or> (65 \<le> (of_char c :: nat) \<and> (of_char c :: nat) \<le> 70))"

text \<open>A hexadecimal digit of a BigInt literal: \<open>[0-9A-Fa-f]\<close>.\<close>

definition is_hex :: "char \<Rightarrow> bool" where
  "is_hex c = (is_upper_hex c \<or> (97 \<le> (of_char c :: nat) \<and> (of_char c :: nat) \<le> 102))"

definition hex_digit :: "char \<Rightarrow> int" where
  "hex_digit c =
     (if is_digit c then int (of_char c) - 48
      else if 97 \<le> (of_char c :: nat) then int (of_char c) - 87
      else int (of_char c) - 55)"

definition hex_value :: "string \<Rightarrow> int" where
  "hex_value s = foldl (\<lambda>acc c. 16 * acc + hex_digit c) 0 s"

definition dec_value :: "string \<Rightarrow> int" where
  "dec_value s = foldl (\<lambda>acc c. 10 * acc + (int (of_char c) - 48)) 0 s"

text \<open>
  \<open>BigInt('0x' + s)\<close>: white space after the digits is ignored, and anything but one or
  more hexadecimal digits before it is a SyntaxError.
\<close>

definition BigInt_hex :: "string \<Rightarrow> js_error + int" where
  "BigInt_hex s =
     (let ds = rev (dropWhile js_ws (rev s))
      in if ds = [] \<or> \<not> list_all is_hex ds then Inl SyntaxError else Inr (hex_value ds))"

text \<open>
  \<open>parseInt(s, 10)\<close>: leading white space and one sign are skipped, the decimal digits
  that follow are read, and what comes after them is ignored; no digit gives NaN.
\<close>

definition js_parseInt :: "string \<Rightarrow> number" where
  "js_parseInt s =
     (let t = dropWhile js_ws s;
          neg = (t \<noteq> [] \<and> hd t = CHR ''-'');
          u = (if t \<noteq> [] \<and> (hd t = CHR ''-'' \<or> hd t = CHR ''+'') then tl t else t);
          ds = takeWhile is_digit u
      in if ds = [] then NaN else Num (if neg then - dec_value ds else dec_value ds))"

text \<open>The number of bits of a BigInt's magnitude.\<close>

function bit_length :: "int \<Rightarrow> nat" where
  "bit_length x = (if x \<le> 0 then 0 else Suc (bit_length (x div 2)))"
  by pat_completeness auto
termination
  by (relation "measure nat") auto

declare bit_length.simps [simp del]

text \<open>\<open>BigInt::kMaxLengthBits\<close> of V8 on a 64-bit platform.\<close>

definition max_bigint_bits :: int where
  "max_bigint_bits = 2 ^ 30"

text \<open>
  \<open>x << BigInt(n)\<close> and \<open>x >> BigInt(n)\<close>: a negative count shifts the other way. A
  zero \<open>x\<close> or \<open>n\<close> gives \<open>x\<close>; a right shift never raises; a left shift of a non-zero
  \<open>x\<close> raises a RangeError where the result would have more than \<open>max_bigint_bits\<close>
  bits.
\<close>

definition bigint_shl :: "int \<Rightarrow> int \<Rightarrow> js_error + int" where
  "bigint_shl x n =
     (if n < 0 then Inr (drop_bit (nat (- n)) x)
      else if x = 0 \<or> n = 0 then Inr x
      else if int (bit_length \<bar>x\<bar>) + n > max_bigint_bits then Inl RangeError
      else Inr (push_bit (nat n) x))"

definition bigint_shr :: "int \<Rightarrow> int \<Rightarrow> js_error + int" where
  "bigint_shr x n = (if 0 \<le> n then Inr (drop_bit (nat n) x) else bigint_shl x (- n))"

text \<open>\<open>parts.join(sep)\<close>.\<close>

fun js_join :: "string \<Rightarrow> string list \<Rightarrow> string" where
  "js_join sep [] = []"
| "js_join sep [p] = p"
| "js_join sep (p # q # ps) = p @ sep @ js_join sep (q # ps)"

section \<open>The prefix index of \<open>MacParser\<close>\<close>

record entry =
  prefix :: string
  vendor :: string
  comment :: string

text \<open>
  A JavaScript \<open>Map\<close> keeps its keys in insertion order and \<open>set\<close> on a key that is
  present keeps the key's place: an association list with \<open>AList.update\<close>. Keys are
  compared by SameValueZero, under which NaN equals NaN and BigInts are equal by value.
\<close>

type_synonym bits_map = "(int \<times> entry) list"

type_synonym index = "(number \<times> bits_map) list"

text \<open>
  \<open>if (!byBits.has(prefixBits)) byBits.set(prefixBits, new Map());
  byBits.get(prefixBits).set(prefixInt, entry)\<close>
\<close>

definition byBits_set :: "index \<Rightarrow> number \<Rightarrow> int \<Rightarrow> entry \<Rightarrow> index" where
  "byBits_set byBits prefixBits prefixInt e =
     (let byBits1 = (if map_of byBits prefixBits = None
                     then AList.update prefixBits [] byBits else byBits)
      in case map_of byBits1 prefixBits of
           None \<Rightarrow> byBits1
         | Some inner \<Rightarrow> AList.update prefixBits (AList.update prefixInt e inner) byBits1)"

text \<open>
  The two comparisons of the bit width of the hex digits with \<open>prefixBits\<close>; both are
  false when \<open>prefixBits\<close> is NaN. \<open>Inl\<close> is the RangeError of the shift.
\<close>

definition shift_prefix :: "int \<Rightarrow> int \<Rightarrow> number \<Rightarrow> js_error + int" where
  "shift_prefix rawInt bitsInHex prefixBits =
     (case prefixBits of
        NaN \<Rightarrow> Inr rawInt
      | Num b \<Rightarrow>
          if bitsInHex > b then bigint_shr rawInt (bitsInHex - b)
          else if bitsInHex < b then bigint_shl rawInt (b - bitsInHex)
          else Inr rawInt)"

text \<open>The variables of the loop body of \<open>_parseManuf\<close>, each as a function of the raw line.\<close>

definition line_parts :: "string \<Rightarrow> string list" where
  "line_parts line = (if TAB \<in> set line then split_on TAB line else split_ws line)"

definition hexPart_of :: "string \<Rightarrow> string" where
  "hexPart_of prefixToken = (case split_on (CHR ''/'') prefixToken of [] \<Rightarrow> [] | h # _ \<Rightarrow> h)"

definition cidrPart_of :: "string \<Rightarrow> string option" where
  "cidrPart_of prefixToken =
     (case split_on (CHR ''/'') prefixToken of h # c # _ \<Rightarrow> Some c | _ \<Rightarrow> None)"

definition compactHex_of :: "string \<Rightarrow> string" where
  "compactHex_of prefixToken = toUpperCase (strip_seps (hexPart_of prefixToken))"

text \<open>
  \<open>cidrPart ? parseInt(cidrPart, 10) : compactHex.length * 4\<close>: a missing and an empty
  \<open>cidrPart\<close> are both falsy.
\<close>

definition prefixBits_of :: "string \<Rightarrow> number" where
  "prefixBits_of prefixToken =
     (case cidrPart_of prefixToken of
        None \<Rightarrow> Num (int (length (compactHex_of prefixToken)) * 4)
      | Some c \<Rightarrow>
          if c = [] then Num (int (length (compactHex_of prefixToken)) * 4)
          else js_parseInt c)"

definition rawInt_of :: "string \<Rightarrow> js_error + int" where
  "rawInt_of prefixToken =
     BigInt_hex (if compactHex_of prefixToken = [] then ''0'' else compactHex_of prefixToken)"

text \<open>
  One iteration of the loop: \<open>Inr None\<close> is \<open>continue\<close>, \<open>Inr (Some (bits, value, e))\<close>
  is the entry the iteration stores, \<open>Inl\<close> is the exception that \<open>BigInt\<close> or the shift
  raises.
\<close>

definition parse_line :: "string \<Rightarrow> js_error + (number \<times> int \<times> entry) option" where
  "parse_line rawLine =
     (let line = js_trim rawLine
      in if line = [] \<or> hd line = CHR ''#'' then Inr None
         else (case line_parts line of
                 p0 # p1 # rest \<Rightarrow>
                   (let prefixToken = js_trim p0;
                        e = \<lparr>prefix = prefixToken, vendor = js_trim p1,
                             comment = js_trim (js_join
                               (if [TAB] \<in> set (line_parts line) then [TAB] else '' '') rest)\<rparr>
                    in case rawInt_of prefixToken of
                         Inl err \<Rightarrow> Inl err
                       | Inr rawInt \<Rightarrow>
                           (case shift_prefix rawInt
                                   (int (length (compactHex_of prefixToken)) * 4)
                                   (prefixBits_of prefixToken) of
                              Inl err \<Rightarrow> Inl err
                            | Inr prefixInt \<Rightarrow>
                                Inr (Some (prefixBits_of prefixToken, prefixInt, e))))
               | _ \<Rightarrow> Inr None))"

fun build_index :: "string list \<Rightarrow> index \<Rightarrow> js_error + index" where
  "build_index [] byBits = Inr byBits"
| "build_index (rawLine # rest) byBits =
     (case parse_line rawLine of
        Inl err \<Rightarrow> Inl err
      | Inr None \<Rightarrow> build_index rest byBits
      | Inr (Some (b, v, e)) \<Rightarrow> build_index rest (byBits_set byBits b v e))"

text \<open>
  \<open>[...byBits.keys()].sort((a, b) => b - a)\<close>: a stable sort by the comparator, a NaN
  result of which counts as 0. Without NaN among the keys every sort gives the same
  list, the keys in descending order, and the insertion sort below gives it. With a NaN
  among the keys the comparator is not a consistent one and the order is the engine's
  own, which the insertion sort need not give: nothing below relies on the place of a
  NaN among other keys.
\<close>

definition compare_desc :: "number \<Rightarrow> number \<Rightarrow> int" where
  "compare_desc a b = (case a of NaN \<Rightarrow> 0 | Num x \<Rightarrow> (case b of NaN \<Rightarrow> 0 | Num y \<Rightarrow> y - x))"

fun sort_insert :: "number \<Rightarrow> number list \<Rightarrow> number list" where
  "sort_insert a [] = [a]"
| "sort_insert a (b # bs) = (if compare_desc a b \<le> 0 then a # b # bs else b # sort_insert a bs)"

definition js_sort :: "number list \<Rightarrow> number list" where
  "js_sort xs = foldr sort_insert xs []"

section \<open>The file system and the parser object\<close>

record fs_file =
  content :: string
  readable :: bool
  mtime :: int

datatype io_op =
    Access string
  | ReadFile string
  | Stat string
  | Mkdir string
  | WriteFile string string
  | Rename string string
  | HttpGet string

datatype stage = StageInit | StageDownload | StageWrite

text \<open>
  What an \<open>EventEmitter\<close> emits: \<open>updated\<close> with \<open>{filePath, url, time}\<close> and
  \<open>error\<close> with \<open>{error, stage, url}\<close>.
\<close>

datatype event =
    Updated string string int
  | ErrorEvent js_error stage string

text \<open>
  The world outside the objects: the files by path, the I/O performed so far, the events
  emitted so far, and the logger's lines (level and message).
\<close>

record world =
  files :: "string \<Rightarrow> fs_file option"
  io_log :: "io_op list"
  emitted :: "event list"
  logged :: "(string \<times> string) list"

record parser =
  manufPath :: string
  ready :: bool
  entries :: index
  sortedLens :: "number list"

definition new_parser :: "string \<Rightarrow> parser" where
  "new_parser path = \<lparr>manufPath = path, ready = False, entries = [], sortedLens = []\<rparr>"

definition read_check :: "world \<Rightarrow> string \<Rightarrow> js_error + fs_file" where
  "read_check w path =
     (case files w path of
        None \<Rightarrow> Inl (SysError ''ENOENT'')
      | Some f \<Rightarrow> if readable f then Inr f else Inl (SysError ''EACCES''))"

text \<open>\<open>fs.promises.access(this.manufPath, fs.constants.R_OK)\<close>\<close>

definition ensureManufFile :: "world \<Rightarrow> parser \<Rightarrow> (js_error + unit) \<times> world" where
  "ensureManufFile w p =
     (let w1 = w\<lparr>io_log := io_log w @ [Access (manufPath p)]\<rparr>
      in case read_check w (manufPath p) of
           Inl err \<Rightarrow> (Inl err, w1)
         | Inr f \<Rightarrow> (Inr (), w1))"

definition readFileSync :: "world \<Rightarrow> string \<Rightarrow> (js_error + string) \<times> world" where
  "readFileSync w path =
     (let w1 = w\<lparr>io_log := io_log w @ [ReadFile path]\<rparr>
      in case read_check w path of
           Inl err \<Rightarrow> (Inl err, w1)
         | Inr f \<Rightarrow> (Inr (content f), w1))"

text \<open>
  \<open>_parseManuf\<close>. The parameter \<open>gunzip\<close> is \<open>zlib.gunzipSync(gz).toString('utf8')\<close>,
  with \<open>None\<close> where zlib raises. The two fields of \<open>this\<close> are assigned after the loop.
\<close>

definition parseManuf ::
  "(string \<Rightarrow> string option) \<Rightarrow> world \<Rightarrow> parser \<Rightarrow> (js_error + unit) \<times> parser \<times> world" where
  "parseManuf gunzip w p =
     (case readFileSync w (manufPath p) of
        (Inl err, w1) \<Rightarrow> (Inl err, p, w1)
      | (Inr gz, w1) \<Rightarrow>
          (case gunzip gz of
             None \<Rightarrow> (Inl ZlibError, p, w1)
           | Some txt \<Rightarrow>
               (case build_index (split_lines txt) [] of
                  Inl err \<Rightarrow> (Inl err, p, w1)
                | Inr byBits \<Rightarrow>
                    (Inr (),
                     p\<lparr>entries := byBits, sortedLens := js_sort (map fst byBits)\<rparr>,
                     w1))))"

definition reinitialize ::
  "(string \<Rightarrow> string option) \<Rightarrow> world \<Rightarrow> parser \<Rightarrow> (js_error + unit) \<times> parser \<times> world" where
  "reinitialize gunzip w p =
     (case ensureManufFile w p of
        (Inl err, w1) \<Rightarrow> (Inl err, p, w1)
      | (Inr u, w1) \<Rightarrow>
          (case parseManuf gunzip w1 p of
             (Inl err, p1, w2) \<Rightarrow> (Inl err, p1, w2)
           | (Inr u1, p1, w2) \<Rightarrow> (Inr (), p1\<lparr>ready := True\<rparr>, w2)))"

definition init ::
  "(string \<Rightarrow> string option) \<Rightarrow> world \<Rightarrow> parser \<Rightarrow> (js_error + unit) \<times> parser \<times> world" where
  "init gunzip w p = (if ready p then (Inr (), p, w) else reinitialize gunzip w p)"

text \<open>\<open>this._entries.get(bits)?.get(key)\<close>\<close>

definition index_get :: "index \<Rightarrow> number \<Rightarrow> int \<Rightarrow> entry option" where
  "index_get ents bits key =
     (case map_of ents bits of None \<Rightarrow> None | Some inner \<Rightarrow> map_of inner key)"

text \<open>
  The first two lines of the loop body of \<open>lookup\<close> for a numeric length:
  \<open>key = macInt >> BigInt(48 - bits)\<close>, which may raise, and \<open>hit\<close>.
\<close>

definition hit_at :: "index \<Rightarrow> int \<Rightarrow> int \<Rightarrow> js_error + entry option" where
  "hit_at ents macInt b =
     (case bigint_shr macInt (48 - b) of
        Inl err \<Rightarrow> Inl err
      | Inr key \<Rightarrow> Inr (index_get ents (Num b) key))"

text \<open>The \<open>for\<close> loop of \<open>lookup\<close>; \<open>BigInt(48 - bits)\<close> raises a RangeError on NaN.\<close>

fun scan_lens :: "index \<Rightarrow> int \<Rightarrow> number list \<Rightarrow> js_error + entry option" where
  "scan_lens ents macInt [] = Inr None"
| "scan_lens ents macInt (NaN # rest) = Inl RangeError"
| "scan_lens ents macInt (Num b # rest) =
     (case hit_at ents macInt b of
        Inl err \<Rightarrow> Inl err
      | Inr (Some hit) \<Rightarrow> Inr (Some hit)
      | Inr None \<Rightarrow> scan_lens ents macInt rest)"

definition compact_mac :: "string \<Rightarrow> string" where
  "compact_mac mac = toUpperCase (strip_seps mac)"

text \<open>The test \<open>/^[0-9A-F]{6,12}$/\<close>.\<close>

definition valid_compact :: "string \<Rightarrow> bool" where
  "valid_compact c = (6 \<le> length c \<and> length c \<le> 12 \<and> list_all is_upper_hex c)"

definition lookup ::
  "(string \<Rightarrow> string option) \<Rightarrow> world \<Rightarrow> parser \<Rightarrow> string
     \<Rightarrow> (js_error + entry option) \<times> parser \<times> world" where
  "lookup gunzip w p mac =
     (case init gunzip w p of
        (Inl err, p1, w1) \<Rightarrow> (Inl err, p1, w1)
      | (Inr u, p1, w1) \<Rightarrow>
          if \<not> valid_compact (compact_mac mac) then (Inr None, p1, w1)
          else (case BigInt_hex (compact_mac mac) of
                  Inl err \<Rightarrow> (Inl err, p1, w1)
                | Inr macInt \<Rightarrow> (scan_lens (entries p1) macInt (sortedLens p1), p1, w1)))"

section \<open>\<open>ScheduledFileDownloader\<close>\<close>

record downloader =
  url :: string
  filePath :: string
  cron :: string
  throwErrorsOnInit :: bool
  job :: "string option"

text \<open>The constructor: an empty \<open>url\<close> or \<open>filePath\<close> is falsy and raises.\<close>

definition new_downloader :: "string \<Rightarrow> string \<Rightarrow> string \<Rightarrow> bool \<Rightarrow> js_error + downloader" where
  "new_downloader u fp c t =
     (if u = [] \<or> fp = [] then Inl (PlainError ''\"url\" and \"filePath\" are required'')
      else Inr \<lparr>url = u, filePath = fp, cron = c, throwErrorsOnInit = t, job = None\<rparr>)"

text \<open>
  What the surroundings answer during one run: the HTTP response (a transport error, or
  the status code and the body), the failures of the file system calls, the readings of
  the clock, and \<open>CronExpressionParser.parse(cron, {currentDate}).prev().toDate()\<close> as a
  function of the expression and the current date, with \<open>Inl\<close> where cron-parser raises.
  A \<open>writeFile\<close> that fails may leave a part of the payload in the file it opened.
\<close>

record env =
  http_response :: "js_error + (int \<times> string)"
  stat_fault :: "js_error option"
  mkdir_fault :: "js_error option"
  write_fault :: "(js_error \<times> string option) option"
  rename_fault :: "js_error option"
  now_check :: int
  now_tmp :: nat
  now_done :: int
  cron_prev :: "string \<Rightarrow> int \<Rightarrow> js_error + int"

record download_opts =
  emitErrors :: bool
  emitUpdate :: bool

definition default_opts :: download_opts where
  "default_opts = \<lparr>emitErrors = True, emitUpdate = True\<rparr>"

definition error_code :: "js_error \<Rightarrow> string option" where
  "error_code err = (case err of SysError c \<Rightarrow> Some c | _ \<Rightarrow> None)"

definition do_io :: "io_op \<Rightarrow> world \<Rightarrow> world" where
  "do_io op w = w\<lparr>io_log := io_log w @ [op]\<rparr>"

definition emit :: "event \<Rightarrow> world \<Rightarrow> world" where
  "emit ev w = w\<lparr>emitted := emitted w @ [ev]\<rparr>"

definition log_line :: "string \<Rightarrow> string \<Rightarrow> world \<Rightarrow> world" where
  "log_line level msg w = w\<lparr>logged := logged w @ [(level, msg)]\<rparr>"

text \<open>\<open>stat(path)\<close>, of which the code reads \<open>mtime\<close>: a missing file is ENOENT.\<close>

definition js_stat :: "env \<Rightarrow> world \<Rightarrow> string \<Rightarrow> (js_error + int) \<times> world" where
  "js_stat ev w path =
     (case stat_fault ev of
        Some err \<Rightarrow> (Inl err, do_io (Stat path) w)
      | None \<Rightarrow>
          (case files w path of
             None \<Rightarrow> (Inl (SysError ''ENOENT''), do_io (Stat path) w)
           | Some f \<Rightarrow> (Inr (mtime f), do_io (Stat path) w)))"

definition isExpired :: "env \<Rightarrow> downloader \<Rightarrow> world \<Rightarrow> (js_error + bool) \<times> world" where
  "isExpired ev d w =
     (case js_stat ev w (filePath d) of
        (Inl err, w1) \<Rightarrow>
          if error_code err = Some ''ENOENT'' then (Inr True, w1) else (Inl err, w1)
      | (Inr mt, w1) \<Rightarrow>
          (case cron_prev ev (cron d) (now_check ev) of
             Inl err \<Rightarrow> (Inl err, w1)
           | Inr lastDue \<Rightarrow> (Inr (mt < lastDue), w1)))"

text \<open>The decimal digits of \<open>Date.now()\<close> in the template string.\<close>

fun digits_of :: "nat \<Rightarrow> string" where
  "digits_of n =
     (if n < 10 then [char_of (48 + n)] else digits_of (n div 10) @ [char_of (48 + n mod 10)])"

definition tmp_path :: "env \<Rightarrow> downloader \<Rightarrow> string" where
  "tmp_path ev d = filePath d @ ''.tmp-'' @ digits_of (now_tmp ev)"

text \<open>
  \<open>path.dirname\<close> of Node on POSIX: the slashes that end the path are skipped, the
  result ends before the last slash that is left, and the character at index 0 is never
  that slash.
\<close>

definition dirname :: "string \<Rightarrow> string" where
  "dirname path =
     (if path = [] then ''.''
      else (let hasRoot = (hd path = CHR ''/'');
                stripped = rev (dropWhile (\<lambda>c. c = CHR ''/'') (rev (tl path)));
                upto = length (dropWhile (\<lambda>c. c \<noteq> CHR ''/'') (rev stripped))
            in if upto = 0 then (if hasRoot then ''/'' else ''.'')
               else if hasRoot \<and> upto = 1 then ''//''
               else take upto path))"

text \<open>The \<open>catch\<close> blocks of \<open>_downloadFile\<close>: emit if asked to, log, and raise again.\<close>

definition fail_stage ::
  "download_opts \<Rightarrow> downloader \<Rightarrow> js_error \<Rightarrow> stage \<Rightarrow> string \<Rightarrow> world \<Rightarrow> (js_error + unit) \<times> world" where
  "fail_stage opts d err st msg w =
     (Inl err,
      log_line ''error'' msg
        (if emitErrors opts then emit (ErrorEvent err st (url d)) w else w))"

text \<open>
  Step 2 of \<open>_downloadFile\<close>, the \<open>try\<close> block: \<open>mkdir\<close>, \<open>writeFile\<close> to the temporary
  path, \<open>rename\<close>. \<open>Inl\<close> is the exception that leaves the block.
\<close>

definition write_to_disk :: "env \<Rightarrow> downloader \<Rightarrow> string \<Rightarrow> world \<Rightarrow> (js_error + unit) \<times> world" where
  "write_to_disk ev d body w =
     (let w1 = do_io (Mkdir (dirname (filePath d))) w
      in case mkdir_fault ev of
           Some err \<Rightarrow> (Inl err, w1)
         | None \<Rightarrow>
             (let tmp = tmp_path ev d;
                  w2 = do_io (WriteFile tmp body) w1
              in case write_fault ev of
                   Some (err, None) \<Rightarrow> (Inl err, w2)
                 | Some (err, Some part) \<Rightarrow>
                     (Inl err,
                      w2\<lparr>files := (files w2)(tmp \<mapsto>
                            \<lparr>content = part, readable = True, mtime = int (now_tmp ev)\<rparr>)\<rparr>)
                 | None \<Rightarrow>
                     (let w3 = w2\<lparr>files := (files w2)(tmp \<mapsto>
                                 \<lparr>content = body, readable = True, mtime = int (now_tmp ev)\<rparr>)\<rparr>;
                          w4 = do_io (Rename tmp (filePath d)) w3
                      in case rename_fault ev of
                           Some err \<Rightarrow> (Inl err, w4)
                         | None \<Rightarrow>
                             (Inr (),
                              w4\<lparr>files := (files w4)(tmp := None,
                                    filePath d := files w4 tmp)\<rparr>))))"

text \<open>
  Step 1 of \<open>_downloadFile\<close>, the \<open>try\<close> block: the request, and the test of the status
  code.
\<close>

definition fetch_body :: "env \<Rightarrow> js_error + string" where
  "fetch_body ev =
     (case http_response ev of
        Inl err \<Rightarrow> Inl err
      | Inr (statusCode, buf) \<Rightarrow>
          if statusCode < 200 \<or> statusCode \<ge> 300 then Inl (HttpError statusCode)
          else Inr buf)"

text \<open>
  \<open>_downloadFile\<close>. The option \<open>emitUpdate\<close> is destructured and never read. The model
  has a listener for each event, as the coordinator registers them before \<open>init\<close>.
\<close>

definition downloadFile ::
  "env \<Rightarrow> downloader \<Rightarrow> download_opts \<Rightarrow> world \<Rightarrow> (js_error + unit) \<times> world" where
  "downloadFile ev d opts w =
     (let w0 = do_io (HttpGet (url d)) (log_line ''debug'' ''Downloading file'' w)
      in case fetch_body ev of
           Inl err \<Rightarrow> fail_stage opts d err StageDownload ''Download failed'' w0
         | Inr body \<Rightarrow>
             (case write_to_disk ev d body w0 of
                (Inl err, w1) \<Rightarrow>
                  fail_stage opts d err StageWrite ''Failed writing file to disk'' w1
              | (Inr u, w1) \<Rightarrow>
                  (Inr (),
                   emit (Updated (filePath d) (url d) (now_done ev))
                     (log_line ''info'' ''File downloaded successfully'' w1))))"

text \<open>\<open>_scheduleRecurringJob\<close>: a job that is registered is cancelled and replaced.\<close>

definition scheduleRecurringJob :: "downloader \<Rightarrow> downloader" where
  "scheduleRecurringJob d = d\<lparr>job := Some (cron d)\<rparr>"

text \<open>The end of \<open>init\<close>, and \<open>init\<close> from the \<open>if (expired)\<close> on.\<close>

definition init_schedule :: "downloader \<Rightarrow> world \<Rightarrow> (js_error + unit) \<times> downloader \<times> world" where
  "init_schedule d w =
     (Inr (), scheduleRecurringJob d, log_line ''info'' ''Scheduled recurring download job'' w)"

definition init_download ::
  "env \<Rightarrow> downloader \<Rightarrow> bool \<Rightarrow> world \<Rightarrow> (js_error + unit) \<times> downloader \<times> world" where
  "init_download ev d expired w =
     (if expired
      then (case downloadFile ev d
                   \<lparr>emitErrors = \<not> throwErrorsOnInit d, emitUpdate = False\<rparr> w of
              (Inl err, w1) \<Rightarrow>
                if throwErrorsOnInit d then (Inl err, d, w1) else init_schedule d w1
            | (Inr u, w1) \<Rightarrow> init_schedule d w1)
      else init_schedule d w)"

definition downloader_init ::
  "env \<Rightarrow> downloader \<Rightarrow> world \<Rightarrow> (js_error + unit) \<times> downloader \<times> world" where
  "downloader_init ev d w =
     (case isExpired ev d w of
        (Inl err, w1) \<Rightarrow>
          if throwErrorsOnInit d then (Inl err, d, w1)
          else init_download ev d True
                 (emit (ErrorEvent err StageInit (url d))
                    (log_line ''error'' ''Failed during init/expiration check'' w1))
      | (Inr expired, w1) \<Rightarrow> init_download ev d expired w1)"

section \<open>The invariant of the data model\<close>

text \<open>
  The specification's invariant of a reference entry, for an entry stored under the
  bit count \<open>b\<close> with the value \<open>v\<close>: \<open>v\<close> fits in \<open>b\<close> bits. It says nothing where
  \<open>b\<close> is NaN, and for a negative \<open>b\<close> it asks for \<open>v = 0\<close>.
\<close>

definition fits :: "number \<Rightarrow> int \<Rightarrow> bool" where
  "fits b v = (case b of NaN \<Rightarrow> True | Num n \<Rightarrow> 0 \<le> v \<and> v < 2 ^ nat n)"

text \<open>No key twice, on both levels of the index, and every value fits its bit count.\<close>

definition index_ok :: "index \<Rightarrow> bool" where
  "index_ok idx =
     (distinct (map fst idx) \<and>
      list_all (\<lambda>(b, inner). distinct (map fst inner) \<and> list_all (\<lambda>(v, e). fits b v) inner) idx)"

section \<open>Sample data\<close>

text \<open>
  A stand-in for zlib in the examples: a payload that starts with the gzip magic number
  1F 8B decompresses to what follows it, any other payload is corrupt.
\<close>

definition sample_gunzip :: "string \<Rightarrow> string option" where
  "sample_gunzip gz =
     (case gz of
        a # b # rest \<Rightarrow> if a = CHR 0x1F \<and> b = CHR 0x8B then Some rest else None
      | _ \<Rightarrow> None)"

definition sample_gz :: "string \<Rightarrow> string" where
  "sample_gz txt = CHR 0x1F # CHR 0x8B # txt"

definition sample_manuf :: string where
  "sample_manuf =
     ''# sample'' @ [CR, LF] @
     ''00:00:0A'' @ [TAB] @ ''Omron'' @ [TAB] @ ''Omron Tateisi'' @ [LF] @
     ''00:1B:C5:00:00:00/36 Converging'' @ [LF] @
     ''lonely'' @ [LF] @
     ''00:1B:C5 IEEE''"

definition sample_file :: "string \<Rightarrow> fs_file" where
  "sample_file c = \<lparr>content = c, readable = True, mtime = 500\<rparr>"

definition sample_world :: world where
  "sample_world =
     \<lparr>files =
        [''manuf.gz'' \<mapsto> sample_file (sample_gz sample_manuf),
         ''nan.gz'' \<mapsto> sample_file (sample_gz (''00:00:0C/xx'' @ [TAB] @ ''Cisco'')),
         ''wide.gz'' \<mapsto> sample_file (sample_gz (''00:00:0C/64'' @ [TAB] @ ''Cisco'')),
         ''huge.gz'' \<mapsto> sample_file (sample_gz ''00/1073741900 X''),
         ''corrupt.gz'' \<mapsto> sample_file ''not gzip'',
         ''locked.gz'' \<mapsto> (sample_file [])\<lparr>readable := False\<rparr>,
         ''data/manuf.gz'' \<mapsto> sample_file ''OLD''],
      io_log = [], emitted = [], logged = []\<rparr>"

definition omron :: entry where
  "omron = \<lparr>prefix = ''00:00:0A'', vendor = ''Omron'', comment = ''Omron Tateisi''\<rparr>"

definition converging :: entry where
  "converging = \<lparr>prefix = ''00:1B:C5:00:00:00/36'', vendor = ''Converging'', comment = []\<rparr>"

definition ieee :: entry where
  "ieee = \<lparr>prefix = ''00:1B:C5'', vendor = ''IEEE'', comment = []\<rparr>"

text \<open>The parser once \<open>manuf.gz\<close> of the sample world has been parsed.\<close>

definition sample_parser :: parser where
  "sample_parser =
     \<lparr>manufPath = ''manuf.gz'', ready = True,
      entries = [(Num 24, [(10, omron), (7109, ieee)]), (Num 36, [(29118464, converging)])],
      sortedLens = [Num 36, Num 24]\<rparr>"

text \<open>A run in which every call succeeds; cron triggers every 100 time units.\<close>

definition sample_env :: env where
  "sample_env =
     \<lparr>http_response = Inr (200, ''NEW''), stat_fault = None, mkdir_fault = None,
      write_fault = None, rename_fault = None, now_check = 1000, now_tmp = 1001,
      now_done = 1002,
      cron_prev = (\<lambda>c t. if c = ''bad'' then Inl SyntaxError else Inr (t - t mod 100))\<rparr>"

text \<open>A run in which \<open>writeFile\<close> fails when it has written two bytes of the payload.\<close>

definition failing_env :: env where
  "failing_env = sample_env\<lparr>write_fault := Some (SysError ''ENOSPC'', Some ''NE'')\<rparr>"

definition sample_downloader :: downloader where
  "sample_downloader =
     \<lparr>url = ''https://example.org/manuf.gz'', filePath = ''data/manuf.gz'',
      cron = ''0 0 * * 0'', throwErrorsOnInit = True, job = None\<rparr>"

section \<open>Auxiliary facts\<close>

lemma hex_digit_range: "is_hex c \<Longrightarrow> 0 \<le> hex_digit c \<and> hex_digit c < 16"
  by (auto simp: is_hex_def is_upper_hex_def is_digit_def hex_digit_def)

lemma foldl_hex_range:
  "list_all is_hex s \<Longrightarrow> 0 \<le> a \<Longrightarrow>
   0 \<le> foldl (\<lambda>acc c. 16 * acc + hex_digit c) a s \<and>
   foldl (\<lambda>acc c. 16 * acc + hex_digit c) a s < (a + 1) * 16 ^ length s"
proof (induction s arbitrary: a)
  case Nil
  then show ?case by simp
next
  case (Cons c s)
  have c: "0 \<le> hex_digit c" "hex_digit c < 16"
    using Cons.prems hex_digit_range by auto
  have step: "0 \<le> 16 * a + hex_digit c" using c Cons.prems by simp
  have "list_all is_hex s" using Cons.prems by simp
  from Cons.IH [OF this step]
  have ih: "0 \<le> foldl (\<lambda>acc c. 16 * acc + hex_digit c) (16 * a + hex_digit c) s"
    "foldl (\<lambda>acc c. 16 * acc + hex_digit c) (16 * a + hex_digit c) s
       < (16 * a + hex_digit c + 1) * 16 ^ length s"
    by auto
  have "(16 * a + hex_digit c + 1) * 16 ^ length s \<le> (16 * (a + 1)) * 16 ^ length s"
    using c by (intro mult_right_mono) auto
  then have "foldl (\<lambda>acc c. 16 * acc + hex_digit c) (16 * a + hex_digit c) s
       < (16 * (a + 1)) * 16 ^ length s"
    using ih(2) by linarith
  moreover have "(16 * (a + 1)) * 16 ^ length s = (a + 1) * (16::int) ^ length (c # s)"
    by simp
  ultimately have "foldl (\<lambda>acc c. 16 * acc + hex_digit c) (16 * a + hex_digit c) s
       < (a + 1) * (16::int) ^ length (c # s)"
    by (simp only:)
  then show ?case using ih(1) by simp
qed

lemma int_div_less:
  fixes raw :: int
  assumes "0 < A" "raw < B * A"
  shows "raw div A < B"
proof -
  have e: "raw div A * A + raw mod A = raw" by simp
  have m: "0 \<le> raw mod A" using assms(1) by simp
  have "raw div A * A < B * A" using e m assms(2) by linarith
  then show ?thesis using assms(1) by (simp add: mult_less_cancel_right_pos)
qed

lemma hex_value_range:
  "list_all is_hex s \<Longrightarrow> 0 \<le> hex_value s \<and> hex_value s < 16 ^ length s"
  using foldl_hex_range [of s 0] by (simp add: hex_value_def)

lemma BigInt_hex_range:
  assumes "BigInt_hex s = Inr raw"
  shows "0 \<le> raw \<and> raw < 2 ^ (4 * length s)"
proof -
  define ds where "ds = rev (dropWhile js_ws (rev s))"
  have ok: "list_all is_hex ds" and raw: "raw = hex_value ds"
    using assms by (auto simp: BigInt_hex_def ds_def Let_def split: if_splits)
  have len: "length ds \<le> length s"
    using length_dropWhile_le [of js_ws "rev s"] by (simp add: ds_def)
  have "hex_value ds < 16 ^ length ds" "0 \<le> hex_value ds"
    using hex_value_range [OF ok] by auto
  moreover have "(16::int) ^ length ds \<le> 16 ^ length s"
    using len by (intro power_increasing) auto
  moreover have "(16::int) ^ length s = 2 ^ (4 * length s)"
    by (simp add: power_mult)
  ultimately show ?thesis using raw by linarith
qed

lemma rawInt_of_range:
  assumes "rawInt_of tok = Inr raw"
  shows "0 \<le> raw \<and> raw < 2 ^ (4 * length (compactHex_of tok))"
proof (cases "compactHex_of tok = []")
  case True
  then have "raw = 0" using assms
    by (simp add: rawInt_of_def BigInt_hex_def js_ws_def is_hex_def is_upper_hex_def is_digit_def
        hex_value_def hex_digit_def)
  then show ?thesis by simp
next
  case False
  then show ?thesis using assms BigInt_hex_range by (simp add: rawInt_of_def)
qed

lemma bit_length_le: "0 \<le> x \<Longrightarrow> x < 2 ^ k \<Longrightarrow> bit_length x \<le> k"
proof (induction k arbitrary: x)
  case 0
  then have "x = 0" by simp
  then show ?case by (simp add: bit_length.simps)
next
  case (Suc k)
  show ?case
  proof (cases "x \<le> 0")
    case True
    then show ?thesis by (simp add: bit_length.simps)
  next
    case False
    have "0 \<le> x div 2" using Suc.prems(1) by simp
    moreover have "x div 2 < 2 ^ k" using Suc.prems(2) by simp
    ultimately have "bit_length (x div 2) \<le> k" by (rule Suc.IH)
    then show ?thesis using False by (subst bit_length.simps) simp
  qed
qed

lemma shift_prefix_range:
  assumes "0 \<le> raw" "raw < 2 ^ h" "shift_prefix raw (int h) (Num n) = Inr v"
  shows "0 \<le> v \<and> v < 2 ^ nat n"
proof -
  consider "int h > n" | "int h < n" | "int h = n" by linarith
  then show ?thesis
  proof cases
    case 1
    have v: "v = raw div 2 ^ nat (int h - n)"
      using 1 assms(3) by (simp add: shift_prefix_def bigint_shr_def drop_bit_eq_div)
    have nonneg: "0 \<le> raw div 2 ^ nat (int h - n)"
      using assms by (simp add: pos_imp_zdiv_nonneg_iff)
    have "raw div 2 ^ nat (int h - n) < 2 ^ nat n"
    proof (cases "0 \<le> n")
      case True
      then have "h = nat (int h - n) + nat n" using 1 by linarith
      then have "(2::int) ^ h = 2 ^ nat (int h - n) * 2 ^ nat n"
        by (metis power_add)
      then have "raw < 2 ^ nat n * 2 ^ nat (int h - n)" using assms by (simp add: mult.commute)
      then show ?thesis
        by (intro int_div_less) auto
    next
      case False
      then have "h \<le> nat (int h - n)" by linarith
      then have "(2::int) ^ h \<le> 2 ^ nat (int h - n)"
        by (intro power_increasing) auto
      then have "raw < 2 ^ nat (int h - n)" using assms by linarith
      then have "raw div 2 ^ nat (int h - n) = 0" using assms by (simp add: div_pos_pos_trivial)
      then show ?thesis by simp
    qed
    then show ?thesis using v nonneg by simp
  next
    case 2
    show ?thesis
    proof (cases "raw = 0")
      case True
      then have "v = 0" using 2 assms(3) by (simp add: shift_prefix_def bigint_shl_def)
      then show ?thesis by simp
    next
      case False
      then have v: "v = raw * 2 ^ nat (n - int h)"
        using 2 assms(3)
        by (cases "int (bit_length \<bar>raw\<bar>) + (n - int h) > max_bigint_bits")
           (simp_all add: shift_prefix_def bigint_shl_def push_bit_eq_mult)
      have "nat n = h + nat (n - int h)" using 2 by linarith
      then have "(2::int) ^ nat n = 2 ^ h * 2 ^ nat (n - int h)"
        by (metis power_add)
      moreover have "raw * 2 ^ nat (n - int h) < 2 ^ h * 2 ^ nat (n - int h)"
        using assms by (intro mult_strict_right_mono) auto
      ultimately show ?thesis using v assms by simp
    qed
  next
    case 3
    then show ?thesis using assms by (auto simp: shift_prefix_def)
  qed
qed

lemma byBits_set_eq:
  "byBits_set idx b v e =
     AList.update b (AList.update v e (case map_of idx b of None \<Rightarrow> [] | Some m \<Rightarrow> m)) idx"
  by (auto simp: byBits_set_def Let_def AList.update_conv' split: option.splits)

lemma in_set_update:
  "(k', x) \<in> set (AList.update k v al) \<Longrightarrow> (k' = k \<and> x = v) \<or> (k', x) \<in> set al"
  by (induction al) (auto split: if_splits)

lemma index_ok_byBits_set:
  assumes ok: "index_ok idx" and f: "fits b v"
  shows "index_ok (byBits_set idx b v e)"
proof -
  define inner0 where "inner0 = (case map_of idx b of None \<Rightarrow> [] | Some m \<Rightarrow> m)"
  have inner0: "distinct (map fst inner0) \<and> (\<forall>(v', e') \<in> set inner0. fits b v')"
  proof (cases "map_of idx b")
    case None
    then show ?thesis by (simp add: inner0_def)
  next
    case (Some m)
    then have "(b, m) \<in> set idx" by (rule map_of_SomeD)
    then show ?thesis using ok Some by (auto simp: index_ok_def inner0_def list_all_iff)
  qed
  have new: "distinct (map fst (AList.update v e inner0)) \<and>
             (\<forall>(v', e') \<in> set (AList.update v e inner0). fits b v')"
    using inner0 f by (auto simp: AList.distinct_update dest!: in_set_update)
  have eq: "byBits_set idx b v e = AList.update b (AList.update v e inner0) idx"
    by (simp add: byBits_set_eq inner0_def)
  show ?thesis
    unfolding eq index_ok_def list_all_iff
    using ok new
    by (auto simp: index_ok_def list_all_iff AList.distinct_update dest!: in_set_update)
qed

lemma parse_line_SomeD:
  assumes "parse_line rawLine = Inr (Some (bits, v, e))"
  shows "\<exists>raw. rawInt_of (prefix e) = Inr raw \<and> bits = prefixBits_of (prefix e) \<and>
           shift_prefix raw (int (length (compactHex_of (prefix e))) * 4) bits = Inr v"
  using assms
  by (auto simp: parse_line_def Let_def split: if_splits list.splits sum.splits)

lemma parse_line_fits:
  assumes "parse_line rawLine = Inr (Some (bits, v, e))"
  shows "fits bits v"
proof (cases bits)
  case NaN
  then show ?thesis by (simp add: fits_def)
next
  case (Num n)
  obtain raw where raw: "rawInt_of (prefix e) = Inr raw"
    and v: "shift_prefix raw (int (length (compactHex_of (prefix e))) * 4) bits = Inr v"
    using parse_line_SomeD [OF assms] by blast
  have r: "0 \<le> raw" "raw < 2 ^ (4 * length (compactHex_of (prefix e)))"
    using rawInt_of_range [OF raw] by auto
  have "int (length (compactHex_of (prefix e))) * 4 = int (4 * length (compactHex_of (prefix e)))"
    by simp
  then have "shift_prefix raw (int (4 * length (compactHex_of (prefix e)))) (Num n) = Inr v"
    using v Num by (simp add: mult.commute)
  then show ?thesis
    using shift_prefix_range [OF r] Num by (simp add: fits_def)
qed

lemma build_index_ok:
  "index_ok acc \<Longrightarrow> build_index ls acc = Inr idx \<Longrightarrow> index_ok idx"
proof (induction ls arbitrary: acc)
  case Nil
  then show ?case by simp
next
  case (Cons l ls)
  show ?case
  proof (cases "parse_line l")
    case (Inl err)
    then show ?thesis using Cons.prems by simp
  next
    case (Inr r)
    show ?thesis
    proof (cases r)
      case None
      then show ?thesis using Cons Inr by simp
    next
      case (Some t)
      obtain b v e where t: "t = (b, v, e)" by (cases t) auto
      have "fits b v" using parse_line_fits Inr Some t by simp
      then have "index_ok (byBits_set acc b v e)"
        using Cons.prems(1) index_ok_byBits_set by simp
      then show ?thesis using Cons.IH Cons.prems(2) Inr Some t by simp
    qed
  qed
qed

lemma set_sort_insert: "set (sort_insert a xs) = insert a (set xs)"
  by (induction xs) auto

lemma sort_insert_desc:
  "sorted_wrt (>) ls \<Longrightarrow> a \<notin> set ls \<Longrightarrow>
   \<exists>ls'. sort_insert (Num a) (map Num ls) = map Num ls' \<and> sorted_wrt (>) ls' \<and>
         set ls' = insert a (set ls)"
proof (induction ls)
  case Nil
  show ?case by (rule exI [of _ "[a]"]) simp
next
  case (Cons b bs)
  show ?case
  proof (cases "compare_desc (Num a) (Num b) \<le> 0")
    case True
    then have "b < a" using Cons.prems(2) by (simp add: compare_desc_def)
    then have "sorted_wrt (>) (a # b # bs)" using Cons.prems(1) by auto
    then show ?thesis using True by (intro exI [of _ "a # b # bs"]) simp
  next
    case False
    then have ab: "a < b" by (simp add: compare_desc_def)
    obtain bs' where bs': "sort_insert (Num a) (map Num bs) = map Num bs'"
      "sorted_wrt (>) bs'" "set bs' = insert a (set bs)"
      using Cons.IH Cons.prems by auto
    have "sorted_wrt (>) (b # bs')" using bs' ab Cons.prems(1) by auto
    then show ?thesis using False bs' by (intro exI [of _ "b # bs'"]) auto
  qed
qed

lemma js_sort_desc:
  "NaN \<notin> set xs \<Longrightarrow> distinct xs \<Longrightarrow>
   \<exists>ls. js_sort xs = map Num ls \<and> sorted_wrt (>) ls \<and> Num ` set ls = set xs"
proof (induction xs)
  case Nil
  then show ?case by (simp add: js_sort_def)
next
  case (Cons x xs)
  obtain a where a: "x = Num a" using Cons.prems(1) by (cases x) auto
  obtain ls where ls: "js_sort xs = map Num ls" "sorted_wrt (>) ls" "Num ` set ls = set xs"
    using Cons by auto
  have "a \<notin> set ls" using ls(3) Cons.prems(2) a by auto
  from sort_insert_desc [OF ls(2) this]
  obtain ls' where ls': "sort_insert (Num a) (map Num ls) = map Num ls'" "sorted_wrt (>) ls'"
    "set ls' = insert a (set ls)" by blast
  have "js_sort (x # xs) = map Num ls'" using ls(1) ls'(1) a by (simp add: js_sort_def)
  moreover have "Num ` set ls' = set (x # xs)" using ls'(3) ls(3) a by auto
  ultimately show ?case using ls'(2) by blast
qed

lemma hit_at_total:
  assumes "0 \<le> m" "m < 2 ^ 48" "b \<le> max_bigint_bits"
  shows "\<exists>h. hit_at ents m b = Inr h"
proof (cases "b \<le> 48")
  case True
  then show ?thesis by (simp add: hit_at_def bigint_shr_def)
next
  case False
  have "bit_length m \<le> 48" using assms(1,2) by (rule bit_length_le)
  then have "int (bit_length \<bar>m\<bar>) + (b - 48) \<le> max_bigint_bits"
    using assms(1,3) by simp
  then show ?thesis using False by (simp add: hit_at_def bigint_shr_def bigint_shl_def)
qed

lemma hit_at_top_bits:
  "b \<le> 48 \<Longrightarrow> hit_at ents m b = Inr (index_get ents (Num b) (m div 2 ^ nat (48 - b)))"
  by (simp add: hit_at_def bigint_shr_def drop_bit_eq_div)

lemma scan_lens_sorted:
  "sorted_wrt (>) ls \<Longrightarrow> \<forall>b \<in> set ls. \<exists>h. hit_at ents m b = Inr h \<Longrightarrow>
   \<exists>r. scan_lens ents m (map Num ls) = Inr r \<and>
     (r = None \<longleftrightarrow> (\<forall>b \<in> set ls. hit_at ents m b = Inr None)) \<and>
     (\<forall>e. r = Some e \<longleftrightarrow>
        (\<exists>b \<in> set ls. hit_at ents m b = Inr (Some e) \<and>
           (\<forall>b' \<in> set ls. b < b' \<longrightarrow> hit_at ents m b' = Inr None)))"
proof (induction ls)
  case Nil
  then show ?case by simp
next
  case (Cons b bs)
  obtain h where h: "hit_at ents m b = Inr h" using Cons.prems(2) by auto
  show ?case
  proof (cases h)
    case None
    have "\<exists>r. scan_lens ents m (map Num bs) = Inr r \<and>
     (r = None \<longleftrightarrow> (\<forall>b \<in> set bs. hit_at ents m b = Inr None)) \<and>
     (\<forall>e. r = Some e \<longleftrightarrow>
        (\<exists>b \<in> set bs. hit_at ents m b = Inr (Some e) \<and>
           (\<forall>b' \<in> set bs. b < b' \<longrightarrow> hit_at ents m b' = Inr None)))"
      using Cons by simp
    then show ?thesis using h None by auto
  next
    case (Some e0)
    have gt: "\<forall>b' \<in> set bs. b' < b" using Cons.prems(1) by auto
    show ?thesis
      using h Some gt by (intro exI [of _ "Some e0"]) (auto simp: order.asym)
  qed
qed

lemma upper_hex_not_ws: "is_upper_hex c \<Longrightarrow> \<not> js_ws c"
  by (auto simp: is_upper_hex_def is_digit_def js_ws_def)

lemma BigInt_hex_upper:
  assumes "list_all is_upper_hex s" "s \<noteq> []"
  shows "BigInt_hex s = Inr (hex_value s)"
proof -
  have "\<not> js_ws (last s)" using assms upper_hex_not_ws by (simp add: list_all_iff)
  then have "dropWhile js_ws (rev s) = rev s"
    using assms(2) by (cases "rev s") (auto simp: last_rev hd_rev)
  moreover have "list_all is_hex s" using assms(1) by (simp add: list_all_iff is_hex_def)
  ultimately show ?thesis using assms(2) by (simp add: BigInt_hex_def)
qed

lemma parseManuf_InrD:
  assumes "parseManuf gunzip w p0 = (Inr u, p, w1)"
  shows "\<exists>txt byBits. build_index (split_lines txt) [] = Inr byBits \<and>
           p = p0\<lparr>entries := byBits, sortedLens := js_sort (map fst byBits)\<rparr>"
  using assms
  by (auto simp: parseManuf_def split: prod.splits sum.splits option.splits)

lemma parseManuf_InlD:
  assumes "parseManuf gunzip w p0 = (Inl err, p, w1)"
  shows "p = p0"
  using assms
  by (auto simp: parseManuf_def split: prod.splits sum.splits option.splits)

lemma reinitialize_InrD:
  assumes "reinitialize gunzip w p0 = (Inr u, p, w1)"
  shows "\<exists>txt byBits. build_index (split_lines txt) [] = Inr byBits \<and>
           p = p0\<lparr>entries := byBits, sortedLens := js_sort (map fst byBits), ready := True\<rparr>"
proof -
  obtain w0' p1 where pm: "parseManuf gunzip w0' p0 = (Inr (), p1, w1)" and p: "p = p1\<lparr>ready := True\<rparr>"
    using assms
    by (auto simp: reinitialize_def split: prod.splits sum.splits)
  from parseManuf_InrD [OF pm] p show ?thesis by auto
qed

lemma index_ok_Nil: "index_ok []"
  by (simp add: index_ok_def)

lemma parse_line_short:
  assumes "length (line_parts (js_trim rawLine)) < 2"
  shows "parse_line rawLine = Inr None"
proof (cases "line_parts (js_trim rawLine)")
  case Nil
  then show ?thesis by (simp add: parse_line_def Let_def)
next
  case (Cons p0 ps)
  then have "ps = []" using assms by simp
  then show ?thesis using Cons by (simp add: parse_line_def Let_def)
qed

lemma init_files: "files (snd (snd (init gunzip w p))) = files w"
  by (auto simp: init_def reinitialize_def ensureManufFile_def parseManuf_def readFileSync_def
      Let_def split: prod.splits sum.splits option.splits)

lemma index_okD:
  assumes "index_ok idx" "(b, inner) \<in> set idx"
  shows "distinct (map fst inner) \<and> (\<forall>v e. (v, e) \<in> set inner \<longrightarrow> fits b v)"
  using assms by (fastforce simp: index_ok_def list_all_iff)

lemma digit_char_not_slash: "k < 10 \<Longrightarrow> char_of (48 + k :: nat) \<noteq> CHR ''/''"
proof
  assume k: "k < 10" and eq: "char_of (48 + k :: nat) = CHR ''/''"
  have "(of_char (char_of (48 + k :: nat)) :: nat) = (48 + k) mod 256" by simp
  then have "(of_char (char_of (48 + k :: nat)) :: nat) = 48 + k" using k by simp
  moreover have "(of_char (CHR ''/'') :: nat) = 47" by simp
  ultimately show False using eq by simp
qed

lemma digits_of_no_slash: "CHR ''/'' \<notin> set (digits_of n)"
proof (induction n rule: digits_of.induct)
  case (1 n)
  show ?case
  proof (cases "n < 10")
    case True
    then show ?thesis using digit_char_not_slash [of n] by (subst digits_of.simps) auto
  next
    case False
    have "n mod 10 < 10" by simp
    then have "char_of (48 + n mod 10) \<noteq> CHR ''/''" by (rule digit_char_not_slash)
    then show ?thesis using False 1 by (subst digits_of.simps) auto
  qed
qed

lemma dirname_append:
  assumes "p \<noteq> []" "last p \<noteq> CHR ''/''" "s \<noteq> []" "CHR ''/'' \<notin> set s"
  shows "dirname (p @ s) = dirname p"
proof -
  obtain c t where p: "p = c # t" using assms(1) by (cases p) auto
  have ls: "last s \<noteq> CHR ''/''" using assms(3,4) last_in_set by metis
  have "dropWhile (\<lambda>c. c = CHR ''/'') (rev (t @ s)) = rev (t @ s)"
    using assms(3) ls by (cases "rev s") (auto simp: last_rev hd_rev)
  then have st1: "rev (dropWhile (\<lambda>c. c = CHR ''/'') (rev (tl (p @ s)))) = t @ s"
    using p by simp
  have st2: "rev (dropWhile (\<lambda>c. c = CHR ''/'') (rev (tl p))) = t"
  proof (cases "t = []")
    case True
    then show ?thesis using p by simp
  next
    case False
    then have "last t \<noteq> CHR ''/''" using assms(2) p by simp
    then have "dropWhile (\<lambda>c. c = CHR ''/'') (rev t) = rev t"
      using False by (cases "rev t") (auto simp: last_rev hd_rev)
    then show ?thesis using p by simp
  qed
  have "dropWhile (\<lambda>c. c \<noteq> CHR ''/'') (rev s @ rev t) = dropWhile (\<lambda>c. c \<noteq> CHR ''/'') (rev t)"
    using assms(4) by (intro dropWhile_append2) auto
  then have up: "length (dropWhile (\<lambda>c. c \<noteq> CHR ''/'') (rev (t @ s)))
      = length (dropWhile (\<lambda>c. c \<noteq> CHR ''/'') (rev t))"
    by simp
  define n where "n = length (dropWhile (\<lambda>c. c \<noteq> CHR ''/'') (rev t))"
  have "n \<le> length t" using length_dropWhile_le [of _ "rev t"] by (simp add: n_def)
  then have "n \<le> length p" using p by simp
  then have tk: "take n (p @ s) = take n p" by simp
  have d1: "dirname (p @ s) = (if n = 0 then (if c = CHR ''/'' then ''/'' else ''.'')
      else if c = CHR ''/'' \<and> n = 1 then ''//'' else take n (p @ s))"
    unfolding dirname_def st1 Let_def up n_def [symmetric] using p by simp
  have d2: "dirname p = (if n = 0 then (if c = CHR ''/'' then ''/'' else ''.'')
      else if c = CHR ''/'' \<and> n = 1 then ''//'' else take n p)"
    unfolding dirname_def st2 Let_def n_def [symmetric] using p by simp
  show ?thesis unfolding d1 d2 tk ..
qed

lemma tmp_path_dirname:
  assumes "filePath d \<noteq> []" "last (filePath d) \<noteq> CHR ''/''"
  shows "dirname (tmp_path ev d) = dirname (filePath d)"
proof -
  have "CHR ''/'' \<notin> set (''.tmp-'' @ digits_of (now_tmp ev))"
    using digits_of_no_slash by simp
  then show ?thesis
    unfolding tmp_path_def using assms by (intro dirname_append) auto
qed

lemma tmp_path_neq: "tmp_path ev d \<noteq> filePath d"
  by (simp add: tmp_path_def)

lemma write_to_disk_frame:
  "\<exists>ops. io_log (snd (write_to_disk ev d body w)) = io_log w @ ops \<and>
     (\<forall>p c. WriteFile p c \<in> set ops \<longrightarrow> p = tmp_path ev d \<and> c = body) \<and>
     (\<forall>a b. Rename a b \<in> set ops \<longrightarrow> a = tmp_path ev d \<and> b = filePath d) \<and>
     (fst (write_to_disk ev d body w) = Inr () \<longrightarrow> Rename (tmp_path ev d) (filePath d) \<in> set ops)"
  by (auto simp: write_to_disk_def do_io_def Let_def split: option.splits prod.splits)

lemma write_to_disk_files_error:
  assumes "fst (write_to_disk ev d body w) = Inl err" "q \<noteq> tmp_path ev d"
  shows "files (snd (write_to_disk ev d body w)) q = files w q"
  using assms
  by (auto simp: write_to_disk_def do_io_def Let_def split: option.splits prod.splits)

lemma write_to_disk_files_ok:
  assumes "fst (write_to_disk ev d body w) = Inr u"
  shows "map_option content (files (snd (write_to_disk ev d body w)) (filePath d)) = Some body \<and>
         files (snd (write_to_disk ev d body w)) (tmp_path ev d) = None \<and>
         (\<forall>q. q \<noteq> tmp_path ev d \<and> q \<noteq> filePath d \<longrightarrow>
              files (snd (write_to_disk ev d body w)) q = files w q)"
  using assms tmp_path_neq [of ev d]
  by (auto simp: write_to_disk_def do_io_def Let_def split: option.splits prod.splits)

lemma write_to_disk_other_fields:
  "emitted (snd (write_to_disk ev d body w)) = emitted w \<and>
   logged (snd (write_to_disk ev d body w)) = logged w"
  by (auto simp: write_to_disk_def do_io_def Let_def split: option.splits prod.splits)

lemma fail_stage_simps:
  "fst (fail_stage opts d err st msg w) = Inl err"
  "files (snd (fail_stage opts d err st msg w)) = files w"
  "io_log (snd (fail_stage opts d err st msg w)) = io_log w"
  by (simp_all add: fail_stage_def log_line_def emit_def)

lemma world_steps:
  "files (emit e w) = files w" "io_log (emit e w) = io_log w"
  "files (log_line l m w) = files w" "io_log (log_line l m w) = io_log w"
  "files (do_io op w) = files w" "io_log (do_io op w) = io_log w @ [op]"
  "emitted (log_line l m w) = emitted w" "emitted (do_io op w) = emitted w"
  "emitted (emit e w) = emitted w @ [e]"
  by (simp_all add: emit_def log_line_def do_io_def)

lemma downloadFile_unfold:
  "downloadFile ev d opts w =
     (case fetch_body ev of
        Inl err \<Rightarrow>
          fail_stage opts d err StageDownload ''Download failed''
            (do_io (HttpGet (url d)) (log_line ''debug'' ''Downloading file'' w))
      | Inr body \<Rightarrow>
          (case fst (write_to_disk ev d body
                 (do_io (HttpGet (url d)) (log_line ''debug'' ''Downloading file'' w))) of
             Inl err \<Rightarrow>
               fail_stage opts d err StageWrite ''Failed writing file to disk''
                 (snd (write_to_disk ev d body
                    (do_io (HttpGet (url d)) (log_line ''debug'' ''Downloading file'' w))))
           | Inr u \<Rightarrow>
               (Inr (),
                emit (Updated (filePath d) (url d) (now_done ev))
                  (log_line ''info'' ''File downloaded successfully''
                     (snd (write_to_disk ev d body
                        (do_io (HttpGet (url d)) (log_line ''debug'' ''Downloading file'' w))))))))"
  by (simp add: downloadFile_def Let_def case_prod_beta split: sum.splits)

lemma downloadFile_emitted_ok:
  assumes "fst (downloadFile ev d opts w) = Inr ()"
  shows "emitted (snd (downloadFile ev d opts w))
           = emitted w @ [Updated (filePath d) (url d) (now_done ev)]"
  using assms write_to_disk_other_fields
  by (auto simp: downloadFile_unfold fail_stage_simps world_steps split: sum.splits)

lemma hex_not_ws: "is_hex c \<Longrightarrow> \<not> js_ws c"
  by (auto simp: is_hex_def is_upper_hex_def is_digit_def js_ws_def)

lemma BigInt_hex_digits:
  assumes "list_all is_hex s" "s \<noteq> []"
  shows "BigInt_hex s = Inr (hex_value s)"
proof -
  have "\<not> js_ws (last s)" using assms hex_not_ws by (simp add: list_all_iff)
  then have "dropWhile js_ws (rev s) = rev s"
    using assms(2) by (cases "rev s") (auto simp: last_rev hd_rev)
  then show ?thesis using assms by (simp add: BigInt_hex_def)
qed











lemma parseManuf_InrD_file:
  assumes "parseManuf gunzip w p0 = (Inr u, p, w1)"
  shows "\<exists>f t byBits. read_check w (manufPath p0) = Inr f \<and> gunzip (content f) = Some t \<and>
           build_index (split_lines t) [] = Inr byBits \<and>
           p = p0\<lparr>entries := byBits, sortedLens := js_sort (map fst byBits)\<rparr>"
  using assms
  by (auto simp: parseManuf_def readFileSync_def Let_def
      split: prod.splits sum.splits option.splits)

lemma read_check_io: "read_check (w\<lparr>io_log := l\<rparr>) path = read_check w path"
  by (simp add: read_check_def)

section \<open>Lookup\<close>

text \<open>
  C1 (amended). For every index built by \<open>reinitialize\<close> whose prefix lengths are all
  numbers of magnitude at most \<open>2^30\<close> (none is NaN, and none is so large that
  shifting the address would exceed the size of a BigInt) and every address string of
  twelve hexadecimal digits, \<open>_sortedLens\<close> holds exactly the prefix lengths present in
  the index, in strictly descending order, no step of the loop raises, and \<open>lookup\<close>
  returns the entry of the longest length \<open>b\<close> at which the address shifted right by
  \<open>48 - b\<close> is a stored value, or null when there is no such length; neither the parser
  nor the world changes. For \<open>b\<close> up to 48 the shifted address is the top \<open>b\<close> bits of
  the 48-bit address.
\<close>

theorem lookup_longest_prefix:
  assumes built: "reinitialize gunzip w0 p0 = (Inr u, p, w1)"
    and numeric: "\<forall>k \<in> fst ` set (entries p). \<exists>b. k = Num b \<and> \<bar>b\<bar> \<le> max_bigint_bits"
    and addr: "length (compact_mac mac) = 12" "list_all is_upper_hex (compact_mac mac)"
  shows "\<exists>lens r. sortedLens p = map Num lens \<and> sorted_wrt (>) lens \<and>
           Num ` set lens = fst ` set (entries p) \<and>
           lookup gunzip w p mac = (Inr r, p, w) \<and>
           (\<forall>b \<in> set lens. \<exists>h. hit_at (entries p) (hex_value (compact_mac mac)) b = Inr h) \<and>
           (r = None \<longleftrightarrow>
              (\<forall>b \<in> set lens.
                 hit_at (entries p) (hex_value (compact_mac mac)) b = Inr None)) \<and>
           (\<forall>e. r = Some e \<longleftrightarrow>
              (\<exists>b \<in> set lens.
                 hit_at (entries p) (hex_value (compact_mac mac)) b = Inr (Some e) \<and>
                 (\<forall>b' \<in> set lens. b < b' \<longrightarrow>
                    hit_at (entries p) (hex_value (compact_mac mac)) b' = Inr None))) \<and>
           (\<forall>b \<le> 48. hit_at (entries p) (hex_value (compact_mac mac)) b
                      = Inr (index_get (entries p) (Num b)
                               (hex_value (compact_mac mac) div 2 ^ nat (48 - b))))"
proof -
  let ?m = "hex_value (compact_mac mac)"
  obtain tx byBits where b: "build_index (split_lines tx) [] = Inr byBits"
    and p: "p = p0\<lparr>entries := byBits, sortedLens := js_sort (map fst byBits), ready := True\<rparr>"
    using reinitialize_InrD [OF built] by blast
  have ok: "index_ok byBits" using build_index_ok [OF index_ok_Nil b] .
  have ents: "entries p = byBits" and lens: "sortedLens p = js_sort (map fst byBits)"
    and rdy: "ready p" using p by simp_all
  have "NaN \<notin> set (map fst byBits)" using numeric ents by auto
  moreover have "distinct (map fst byBits)" using ok by (simp add: index_ok_def)
  ultimately obtain ls where ls: "js_sort (map fst byBits) = map Num ls" "sorted_wrt (>) ls"
    "Num ` set ls = set (map fst byBits)"
    using js_sort_desc by blast
  have keys: "Num ` set ls = fst ` set (entries p)" using ls(3) ents by simp
  have small: "\<forall>b \<in> set ls. b \<le> max_bigint_bits"
  proof
    fix b
    assume "b \<in> set ls"
    then have "Num b \<in> fst ` set (entries p)" using keys by blast
    then obtain b' where "Num b = Num b'" "\<bar>b'\<bar> \<le> max_bigint_bits" using numeric by blast
    then show "b \<le> max_bigint_bits" by simp
  qed
  have valid: "valid_compact (compact_mac mac)" using addr by (simp add: valid_compact_def)
  have ne: "compact_mac mac \<noteq> []" using addr(1) by auto
  have big: "BigInt_hex (compact_mac mac) = Inr ?m"
    using BigInt_hex_upper [OF addr(2) ne] .
  have "list_all is_hex (compact_mac mac)" using addr(2) by (simp add: list_all_iff is_hex_def)
  then have "0 \<le> ?m \<and> ?m < 16 ^ length (compact_mac mac)" by (rule hex_value_range)
  then have m: "0 \<le> ?m" "?m < 2 ^ 48" using addr(1) by simp_all
  have total: "\<forall>b \<in> set ls. \<exists>h. hit_at (entries p) ?m b = Inr h"
    using small hit_at_total [OF m] by blast
  have look: "lookup gunzip w p mac = (scan_lens (entries p) ?m (map Num ls), p, w)"
    using rdy valid big lens ls(1) by (simp add: lookup_def init_def)
  obtain r where r: "scan_lens (entries p) ?m (map Num ls) = Inr r"
    "r = None \<longleftrightarrow> (\<forall>b \<in> set ls. hit_at (entries p) ?m b = Inr None)"
    "\<forall>e. r = Some e \<longleftrightarrow>
       (\<exists>b \<in> set ls. hit_at (entries p) ?m b = Inr (Some e) \<and>
          (\<forall>b' \<in> set ls. b < b' \<longrightarrow> hit_at (entries p) ?m b' = Inr None))"
    using scan_lens_sorted [OF ls(2) total] by blast
  have top: "\<forall>b \<le> 48. hit_at (entries p) ?m b
      = Inr (index_get (entries p) (Num b) (?m div 2 ^ nat (48 - b)))"
    using hit_at_top_bits by blast
  have l1: "sortedLens p = map Num ls" using lens ls(1) by simp
  have l2: "lookup gunzip w p mac = (Inr r, p, w)" using look r(1) by simp
  show ?thesis
    apply (rule exI [of _ ls])
    apply (rule exI [of _ r])
    apply (intro conjI)
    apply (rule l1 ls(2) keys l2 total r(2) r(3) top)+
    done
qed

text \<open>
  The sample index holds \<open>00:1B:C5\<close> at 24 bits and \<open>00:1B:C5:00:00:00/36\<close> at 36 bits;
  both cover the address \<open>00:1b:c5:00:01:22\<close>, and the 36-bit entry is returned.
\<close>

theorem lookup_longest_prefix_witness:
  "fst (reinitialize sample_gunzip sample_world (new_parser ''manuf.gz'')) = Inr () \<and>
   fst (snd (reinitialize sample_gunzip sample_world (new_parser ''manuf.gz''))) = sample_parser \<and>
   fst ` set (entries sample_parser) = {Num 24, Num 36} \<and>
   \<bar>24\<bar> \<le> max_bigint_bits \<and> \<bar>36\<bar> \<le> max_bigint_bits \<and>
   length (compact_mac ''00:1b:c5:00:01:22'') = 12 \<and>
   list_all is_upper_hex (compact_mac ''00:1b:c5:00:01:22'') \<and>
   hit_at (entries sample_parser) (hex_value (compact_mac ''00:1b:c5:00:01:22'')) 24
     = Inr (Some ieee) \<and>
   hit_at (entries sample_parser) (hex_value (compact_mac ''00:1b:c5:00:01:22'')) 36
     = Inr (Some converging) \<and>
   (\<exists>lens. sortedLens sample_parser = map Num lens \<and> sorted_wrt (>) lens \<and>
      lookup sample_gunzip sample_world sample_parser ''00:1b:c5:00:01:22''
        = (Inr (Some converging), sample_parser, sample_world))"
proof -
  let ?run = "reinitialize sample_gunzip sample_world (new_parser ''manuf.gz'')"
  have r1: "fst ?run = Inr ()" by code_simp
  have r2: "fst (snd ?run) = sample_parser" by code_simp
  have built: "?run = (Inr (), sample_parser, snd (snd ?run))"
    using r1 r2 by (metis prod.collapse)
  have ks: "fst ` set (entries sample_parser) = {Num 24, Num 36}"
    by (simp add: sample_parser_def)
  have k24: "\<bar>24\<bar> \<le> max_bigint_bits" and k36: "\<bar>36\<bar> \<le> max_bigint_bits"
    by (simp_all add: max_bigint_bits_def)
  have numeric: "\<forall>k \<in> fst ` set (entries sample_parser). \<exists>b. k = Num b \<and> \<bar>b\<bar> \<le> max_bigint_bits"
    unfolding ks using k24 k36 by simp
  have a1: "length (compact_mac ''00:1b:c5:00:01:22'') = 12" by code_simp
  have a2: "list_all is_upper_hex (compact_mac ''00:1b:c5:00:01:22'')" by code_simp
  have h24: "hit_at (entries sample_parser) (hex_value (compact_mac ''00:1b:c5:00:01:22'')) 24
     = Inr (Some ieee)"
    by code_simp
  have h36: "hit_at (entries sample_parser) (hex_value (compact_mac ''00:1b:c5:00:01:22'')) 36
     = Inr (Some converging)"
    by code_simp
  have res: "fst (lookup sample_gunzip sample_world sample_parser ''00:1b:c5:00:01:22'')
      = Inr (Some converging)"
    by code_simp
  obtain lens r where l: "sortedLens sample_parser = map Num lens" "sorted_wrt (>) lens"
    "lookup sample_gunzip sample_world sample_parser ''00:1b:c5:00:01:22''
       = (Inr r, sample_parser, sample_world)"
    using lookup_longest_prefix [OF built numeric a1 a2, of sample_world] by blast
  have "r = Some converging" using l(3) res by simp
  then have fin: "\<exists>lens. sortedLens sample_parser = map Num lens \<and> sorted_wrt (>) lens \<and>
      lookup sample_gunzip sample_world sample_parser ''00:1b:c5:00:01:22''
        = (Inr (Some converging), sample_parser, sample_world)"
    using l by blast
  show ?thesis by (intro conjI r1 r2 ks k24 k36 a1 a2 h24 h36 fin)
qed

text \<open>
  C1 as stated fails on an index with a NaN prefix length. The line \<open>00:00:0C/xx\<close>
  is stored under \<open>parseInt('xx', 10)\<close>, which is NaN; an address of twelve digits then
  reaches \<open>BigInt(48 - NaN)\<close>, and \<open>lookup\<close> raises a RangeError where the claim has it
  return null.
\<close>

theorem lookup_nan_length_counterexample:
  "fst (reinitialize sample_gunzip sample_world (new_parser ''nan.gz'')) = Inr () \<and>
   sortedLens (fst (snd (reinitialize sample_gunzip sample_world (new_parser ''nan.gz''))))
     = [NaN] \<and>
   length (compact_mac ''FF:FF:FF:FF:FF:FF'') = 12 \<and>
   list_all is_upper_hex (compact_mac ''FF:FF:FF:FF:FF:FF'') \<and>
   fst (lookup sample_gunzip sample_world
          (fst (snd (reinitialize sample_gunzip sample_world (new_parser ''nan.gz''))))
          ''FF:FF:FF:FF:FF:FF'') = Inl RangeError"
  by code_simp

text \<open>
  It fails as well on a numeric length that is too large. The line \<open>00/1073741900 X\<close>
  is accepted, since a zero shifted left is zero; the address \<open>FF:FF:FF:FF:FF:FF\<close>
  shifted left by \<open>1073741900 - 48\<close> bits would have more than \<open>2^30\<close> bits, and
  \<open>lookup\<close> raises a RangeError.
\<close>

lemma lookup_oversized_length_raises:
  "fst (reinitialize sample_gunzip sample_world (new_parser ''huge.gz'')) = Inr () \<and>
   sortedLens (fst (snd (reinitialize sample_gunzip sample_world (new_parser ''huge.gz''))))
     = [Num 1073741900] \<and>
   fst (lookup sample_gunzip sample_world
          (fst (snd (reinitialize sample_gunzip sample_world (new_parser ''huge.gz''))))
          ''FF:FF:FF:FF:FF:FF'') = Inl RangeError"
  by code_simp

text \<open>
  C4 (amended). \<open>lookup\<close> returns an entry only if the string, with the separators
  \<open>:\<close>, \<open>-\<close> and \<open>.\<close> stripped and upper-cased, consists of six to twelve hexadecimal
  digits: any count from 6 to 12 passes the test \<open>/^[0-9A-F]{6,12}$/\<close>, and 7, 9 and
  11 among them. Fewer than six or more than twelve digits, or another character,
  yield no entry.
\<close>

theorem lookup_entry_only_valid:
  assumes "lookup gunzip w p mac = (Inr (Some e), p', w')"
  shows "6 \<le> length (compact_mac mac) \<and> length (compact_mac mac) \<le> 12 \<and>
         list_all is_upper_hex (compact_mac mac)"
  using assms
  by (auto simp: lookup_def valid_compact_def split: prod.splits sum.splits if_splits)

text \<open>An address of twelve digits with dashes and lower-case letters finds its entry.\<close>

theorem lookup_entry_only_valid_witness:
  "fst (lookup sample_gunzip sample_world sample_parser ''00-00-0a-11-22-33'') = Inr (Some omron) \<and>
   6 \<le> length (compact_mac ''00-00-0a-11-22-33'') \<and>
   length (compact_mac ''00-00-0a-11-22-33'') \<le> 12 \<and>
   list_all is_upper_hex (compact_mac ''00-00-0a-11-22-33'')"
proof -
  let ?run = "lookup sample_gunzip sample_world sample_parser ''00-00-0a-11-22-33''"
  have r1: "fst ?run = Inr (Some omron)" by code_simp
  have run: "?run = (Inr (Some omron), fst (snd ?run), snd (snd ?run))"
    using r1 by (metis prod.collapse)
  show ?thesis using lookup_entry_only_valid [OF run] r1 by blast
qed

text \<open>
  C4 as stated fails at seven digits: \<open>ABCDEF1\<close> passes the test, its value shifted
  right by 24 is \<open>0xA\<close>, and the 24-bit entry \<open>00:00:0A\<close> is returned.
\<close>

theorem lookup_seven_digits_counterexample:
  "length (compact_mac ''ABCDEF1'') = 7 \<and>
   list_all is_upper_hex (compact_mac ''ABCDEF1'') \<and>
   fst (lookup sample_gunzip sample_world sample_parser ''ABCDEF1'') = Inr (Some omron)"
  by code_simp

text \<open>
  C5 (amended). When the parser is initialised, or the initialisation that \<open>lookup\<close>
  starts succeeds, every string whose stripped and upper-cased form is not six to
  twelve hexadecimal digits yields null, and no error is raised; the state is the one
  that \<open>init\<close> left. When that initialisation raises an error, \<open>lookup\<close> raises it for
  every input.
\<close>

theorem lookup_malformed_null:
  "(init gunzip w p = (Inr u, p1, w1) \<and> \<not> valid_compact (compact_mac mac) \<longrightarrow>
      lookup gunzip w p mac = (Inr None, p1, w1)) \<and>
   (init gunzip w p = (Inl err, p2, w2) \<longrightarrow> lookup gunzip w p mac = (Inl err, p2, w2))"
  by (simp add: lookup_def)

text \<open>
  The specification's two malformed inputs, on the initialised sample parser; and a
  parser whose file is missing, which raises on a well-formed input too.
\<close>

theorem lookup_malformed_null_witness:
  "init sample_gunzip sample_world sample_parser = (Inr (), sample_parser, sample_world) \<and>
   \<not> valid_compact (compact_mac ''12:34'') \<and>
   \<not> valid_compact (compact_mac ''not-hex'') \<and>
   lookup sample_gunzip sample_world sample_parser ''12:34''
     = (Inr None, sample_parser, sample_world) \<and>
   lookup sample_gunzip sample_world sample_parser ''not-hex''
     = (Inr None, sample_parser, sample_world) \<and>
   fst (init sample_gunzip sample_world (new_parser ''missing.gz'')) = Inl (SysError ''ENOENT'') \<and>
   fst (lookup sample_gunzip sample_world (new_parser ''missing.gz'') ''00:00:0A:11:22:33'')
     = Inl (SysError ''ENOENT'')"
proof -
  let ?i = "init sample_gunzip sample_world (new_parser ''missing.gz'')"
  have f1: "fst ?i = Inl (SysError ''ENOENT'')" by code_simp
  have f2: "?i = (Inl (SysError ''ENOENT''), fst (snd ?i), snd (snd ?i))"
    using f1 by (metis prod.collapse)
  have "lookup sample_gunzip sample_world (new_parser ''missing.gz'') ''00:00:0A:11:22:33''
      = (Inl (SysError ''ENOENT''), fst (snd ?i), snd (snd ?i))"
    using lookup_malformed_null
      [where gunzip = sample_gunzip and w = sample_world and p = "new_parser ''missing.gz''"
         and err = "SysError ''ENOENT''" and ?p2.0 = "fst (snd ?i)" and ?w2.0 = "snd (snd ?i)"
         and mac = "''00:00:0A:11:22:33''"] f2
    by blast
  then have f3: "fst (lookup sample_gunzip sample_world (new_parser ''missing.gz'')
      ''00:00:0A:11:22:33'') = Inl (SysError ''ENOENT'')"
    by simp
  have i: "init sample_gunzip sample_world sample_parser = (Inr (), sample_parser, sample_world)"
    by (simp add: init_def sample_parser_def)
  have m1: "\<not> valid_compact (compact_mac ''12:34'')" by code_simp
  have m2: "\<not> valid_compact (compact_mac ''not-hex'')" by code_simp
  have n1: "lookup sample_gunzip sample_world sample_parser ''12:34''
     = (Inr None, sample_parser, sample_world)"
    using lookup_malformed_null
      [where gunzip = sample_gunzip and w = sample_world and p = sample_parser and u = "()"
         and ?p1.0 = sample_parser and ?w1.0 = sample_world and mac = "''12:34''"] i m1
    by blast
  have n2: "lookup sample_gunzip sample_world sample_parser ''not-hex''
     = (Inr None, sample_parser, sample_world)"
    using lookup_malformed_null
      [where gunzip = sample_gunzip and w = sample_world and p = sample_parser and u = "()"
         and ?p1.0 = sample_parser and ?w1.0 = sample_world and mac = "''not-hex''"] i m2
    by blast
  show ?thesis by (intro conjI i m1 m2 n1 n2 f1 f3)
qed

text \<open>
  C5 as stated fails on a parser that is not initialised and whose manuf file is
  missing: \<open>lookup\<close> awaits \<open>init\<close> first, and the error of \<open>access\<close> leaves \<open>lookup\<close>
  before the input is looked at.
\<close>

theorem lookup_init_failure_counterexample:
  "\<not> valid_compact (compact_mac ''not-hex'') \<and>
   \<not> ready (new_parser ''missing.gz'') \<and>
   files sample_world ''missing.gz'' = None \<and>
   fst (lookup sample_gunzip sample_world (new_parser ''missing.gz'') ''not-hex'')
     = Inl (SysError ''ENOENT'')"
  by code_simp

text \<open>
  C8 (amended). On an initialised parser \<open>lookup\<close> performs no I/O and leaves the
  parser and the world as they are. On a parser that is not initialised it first runs
  \<open>init\<close>, which checks the access to the manuf file and, exactly when that succeeds,
  reads it. In both cases the files are unchanged.
\<close>

theorem lookup_io_only_when_uninitialised:
  "(ready p \<longrightarrow> snd (lookup gunzip w p mac) = (p, w)) \<and>
   files (snd (snd (lookup gunzip w p mac))) = files w \<and>
   (\<not> ready p \<longrightarrow>
      io_log (snd (snd (lookup gunzip w p mac))) = io_log w @ [Access (manufPath p)] \<or>
      io_log (snd (snd (lookup gunzip w p mac)))
        = io_log w @ [Access (manufPath p), ReadFile (manufPath p)]) \<and>
   (\<not> ready p \<and> read_check w (manufPath p) = Inl err \<longrightarrow>
      io_log (snd (snd (lookup gunzip w p mac))) = io_log w @ [Access (manufPath p)]) \<and>
   (\<not> ready p \<and> read_check w (manufPath p) = Inr g \<longrightarrow>
      io_log (snd (snd (lookup gunzip w p mac)))
        = io_log w @ [Access (manufPath p), ReadFile (manufPath p)])"
proof (intro conjI impI)
  assume "ready p"
  then show "snd (lookup gunzip w p mac) = (p, w)"
    by (simp add: lookup_def init_def split: sum.splits)
next
  have "snd (snd (lookup gunzip w p mac)) = snd (snd (init gunzip w p))"
    by (simp add: lookup_def split: prod.splits sum.splits)
  then show "files (snd (snd (lookup gunzip w p mac))) = files w"
    using init_files by simp
next
  assume nr: "\<not> ready p"
  have "snd (snd (lookup gunzip w p mac)) = snd (snd (init gunzip w p))"
    by (simp add: lookup_def split: prod.splits sum.splits)
  moreover have "io_log (snd (snd (init gunzip w p))) = io_log w @ [Access (manufPath p)] \<or>
      io_log (snd (snd (init gunzip w p)))
        = io_log w @ [Access (manufPath p), ReadFile (manufPath p)]"
    using nr
    by (auto simp: init_def reinitialize_def ensureManufFile_def parseManuf_def readFileSync_def
      Let_def split: prod.splits sum.splits option.splits)
  ultimately show "io_log (snd (snd (lookup gunzip w p mac))) = io_log w @ [Access (manufPath p)] \<or>
      io_log (snd (snd (lookup gunzip w p mac)))
        = io_log w @ [Access (manufPath p), ReadFile (manufPath p)]"
    by simp
next
  assume a: "\<not> ready p \<and> read_check w (manufPath p) = Inl err"
  have "snd (snd (lookup gunzip w p mac)) = snd (snd (init gunzip w p))"
    by (simp add: lookup_def split: prod.splits sum.splits)
  moreover have "io_log (snd (snd (init gunzip w p))) = io_log w @ [Access (manufPath p)]"
    using a by (simp add: init_def reinitialize_def ensureManufFile_def Let_def)
  ultimately show "io_log (snd (snd (lookup gunzip w p mac))) = io_log w @ [Access (manufPath p)]"
    by simp
next
  assume a: "\<not> ready p \<and> read_check w (manufPath p) = Inr g"
  have "snd (snd (lookup gunzip w p mac)) = snd (snd (init gunzip w p))"
    by (simp add: lookup_def split: prod.splits sum.splits)
  moreover have "io_log (snd (snd (init gunzip w p)))
      = io_log w @ [Access (manufPath p), ReadFile (manufPath p)]"
    using a
    by (auto simp: init_def reinitialize_def ensureManufFile_def parseManuf_def readFileSync_def
      read_check_io Let_def split: prod.splits sum.splits option.splits)
  ultimately show "io_log (snd (snd (lookup gunzip w p mac)))
      = io_log w @ [Access (manufPath p), ReadFile (manufPath p)]"
    by simp
qed

text \<open>A lookup on the initialised sample parser, and one that a locked file stops.\<close>

theorem lookup_io_only_when_uninitialised_witness:
  "ready sample_parser \<and>
   snd (lookup sample_gunzip sample_world sample_parser ''00:00:0A:11:22:33'')
     = (sample_parser, sample_world) \<and>
   fst (lookup sample_gunzip sample_world sample_parser ''00:00:0A:11:22:33'') = Inr (Some omron) \<and>
   \<not> ready (new_parser ''locked.gz'') \<and>
   (io_log (snd (snd (lookup sample_gunzip sample_world (new_parser ''locked.gz'') ''00:00:0A:11:22:33'')))
      = io_log sample_world @ [Access ''locked.gz''] \<or>
    io_log (snd (snd (lookup sample_gunzip sample_world (new_parser ''locked.gz'') ''00:00:0A:11:22:33'')))
      = io_log sample_world @ [Access ''locked.gz'', ReadFile ''locked.gz''])"
proof -
  have nr: "\<not> ready (new_parser ''locked.gz'')" by (simp add: new_parser_def)
  have mp: "manufPath (new_parser ''locked.gz'') = ''locked.gz''" by (simp add: new_parser_def)
  have lazy: "io_log (snd (snd (lookup sample_gunzip sample_world (new_parser ''locked.gz'')
                 ''00:00:0A:11:22:33'')))
      = io_log sample_world @ [Access ''locked.gz''] \<or>
    io_log (snd (snd (lookup sample_gunzip sample_world (new_parser ''locked.gz'')
                 ''00:00:0A:11:22:33'')))
      = io_log sample_world @ [Access ''locked.gz'', ReadFile ''locked.gz'']"
    using lookup_io_only_when_uninitialised
      [of "new_parser ''locked.gz''" sample_gunzip sample_world "''00:00:0A:11:22:33''"] nr
    unfolding mp by blast
  have r: "ready sample_parser" by (simp add: sample_parser_def)
  have "snd (lookup sample_gunzip sample_world sample_parser ''00:00:0A:11:22:33'')
     = (sample_parser, sample_world)"
    using lookup_io_only_when_uninitialised
      [of sample_parser sample_gunzip sample_world "''00:00:0A:11:22:33''"] r
    by blast
  moreover have "fst (lookup sample_gunzip sample_world sample_parser ''00:00:0A:11:22:33'')
     = Inr (Some omron)" by code_simp
  ultimately show ?thesis using r nr lazy by blast
qed

text \<open>
  C8 as stated fails on a parser that is not initialised: the lookup checks and reads
  \<open>manuf.gz\<close> before it answers.
\<close>

theorem lookup_lazy_init_counterexample:
  "\<not> ready (new_parser ''manuf.gz'') \<and>
   io_log sample_world = [] \<and>
   io_log (snd (snd (lookup sample_gunzip sample_world (new_parser ''manuf.gz'')
                       ''00:00:0A:11:22:33'')))
     = [Access ''manuf.gz'', ReadFile ''manuf.gz''] \<and>
   fst (lookup sample_gunzip sample_world (new_parser ''manuf.gz'') ''00:00:0A:11:22:33'')
     = Inr (Some omron)"
  by code_simp

section \<open>Building the index\<close>

text \<open>
  C3. When \<open>_parseManuf\<close> raises an error, the parser is exactly what it was before the
  call; an unreadable file and a failed decompression do raise. When it returns, the
  parser holds the index built from the whole text of the file, with its sorted lengths: the two
  fields are assigned after the loop, so no state in between is visible. A line with
  fewer than two fields is skipped and the build goes on with the next line.
\<close>

theorem parseManuf_all_or_nothing:
  "(parseManuf gunzip w p = (Inl err, p', w') \<longrightarrow> p' = p) \<and>
   (parseManuf gunzip w p = (Inr u, p'', w'') \<longrightarrow>
      (\<exists>g t byBits. read_check w (manufPath p) = Inr g \<and> gunzip (content g) = Some t \<and>
         build_index (split_lines t) [] = Inr byBits \<and>
         p'' = p\<lparr>entries := byBits, sortedLens := js_sort (map fst byBits)\<rparr>)) \<and>
   (read_check w (manufPath p) = Inl err \<longrightarrow> fst (parseManuf gunzip w p) = Inl err) \<and>
   (read_check w (manufPath p) = Inr f \<and> gunzip (content f) = None \<longrightarrow>
      fst (parseManuf gunzip w p) = Inl ZlibError) \<and>
   (length (line_parts (js_trim rawLine)) < 2 \<longrightarrow>
      parse_line rawLine = Inr None \<and>
      build_index (rawLine # rest) acc = build_index rest acc)"
proof (intro conjI impI)
  assume "parseManuf gunzip w p = (Inl err, p', w')"
  then show "p' = p" by (rule parseManuf_InlD)
next
  assume "parseManuf gunzip w p = (Inr u, p'', w'')"
  then show "\<exists>g t byBits. read_check w (manufPath p) = Inr g \<and> gunzip (content g) = Some t \<and>
         build_index (split_lines t) [] = Inr byBits \<and>
         p'' = p\<lparr>entries := byBits, sortedLens := js_sort (map fst byBits)\<rparr>"
    by (rule parseManuf_InrD_file)
next
  assume "read_check w (manufPath p) = Inl err"
  then show "fst (parseManuf gunzip w p) = Inl err"
    by (simp add: parseManuf_def readFileSync_def Let_def)
next
  assume "read_check w (manufPath p) = Inr f \<and> gunzip (content f) = None"
  then show "fst (parseManuf gunzip w p) = Inl ZlibError"
    by (simp add: parseManuf_def readFileSync_def Let_def)
next
  assume "length (line_parts (js_trim rawLine)) < 2"
  then show "parse_line rawLine = Inr None" by (rule parse_line_short)
next
  assume "length (line_parts (js_trim rawLine)) < 2"
  then have "parse_line rawLine = Inr None" by (rule parse_line_short)
  then show "build_index (rawLine # rest) acc = build_index rest acc" by simp
qed

text \<open>
  A corrupt payload and an unreadable file leave the sample parser's index in place; the
  one-field line \<open>lonely\<close> is skipped.
\<close>

theorem parseManuf_all_or_nothing_witness:
  "fst (parseManuf sample_gunzip sample_world (sample_parser\<lparr>manufPath := ''corrupt.gz''\<rparr>))
     = Inl ZlibError \<and>
   fst (snd (parseManuf sample_gunzip sample_world (sample_parser\<lparr>manufPath := ''corrupt.gz''\<rparr>)))
     = sample_parser\<lparr>manufPath := ''corrupt.gz''\<rparr> \<and>
   read_check sample_world ''locked.gz'' = Inl (SysError ''EACCES'') \<and>
   fst (parseManuf sample_gunzip sample_world (sample_parser\<lparr>manufPath := ''locked.gz''\<rparr>))
     = Inl (SysError ''EACCES'') \<and>
   length (line_parts (js_trim ''lonely'')) < 2 \<and>
   build_index [''lonely'', ''00:1B:C5 IEEE''] [] = build_index [''00:1B:C5 IEEE''] [] \<and>
   fst (parseManuf sample_gunzip sample_world (new_parser ''manuf.gz'')) = Inr () \<and>
   (\<exists>t byBits. build_index (split_lines t) [] = Inr byBits \<and>
      fst (snd (parseManuf sample_gunzip sample_world (new_parser ''manuf.gz'')))
        = (new_parser ''manuf.gz'')\<lparr>entries := byBits, sortedLens := js_sort (map fst byBits)\<rparr>)"
proof -
  let ?q = "new_parser ''manuf.gz''"
  let ?built = "parseManuf sample_gunzip sample_world ?q"
  have s1: "fst ?built = Inr ()" by code_simp
  have built: "?built = (Inr (), fst (snd ?built), snd (snd ?built))"
    using s1 by (metis prod.collapse)
  have whole: "\<exists>t byBits. build_index (split_lines t) [] = Inr byBits \<and>
      fst (snd ?built) = ?q\<lparr>entries := byBits, sortedLens := js_sort (map fst byBits)\<rparr>"
    using parseManuf_all_or_nothing
      [where gunzip = sample_gunzip and w = sample_world and p = ?q and u = "()"
         and p'' = "fst (snd ?built)" and w'' = "snd (snd ?built)"] built
    by blast
  let ?p = "sample_parser\<lparr>manufPath := ''corrupt.gz''\<rparr>"
  let ?run = "parseManuf sample_gunzip sample_world ?p"
  have r1: "fst ?run = Inl ZlibError" by code_simp
  have run: "?run = (Inl ZlibError, fst (snd ?run), snd (snd ?run))"
    using r1 by (metis prod.collapse)
  have same: "fst (snd ?run) = ?p"
    using parseManuf_all_or_nothing
      [of sample_gunzip sample_world ?p ZlibError "fst (snd ?run)" "snd (snd ?run)"] run
    by blast
  have rc: "read_check sample_world ''locked.gz'' = Inl (SysError ''EACCES'')" by code_simp
  have rc': "read_check sample_world (manufPath (sample_parser\<lparr>manufPath := ''locked.gz''\<rparr>))
      = Inl (SysError ''EACCES'')"
    using rc by simp
  have locked: "fst (parseManuf sample_gunzip sample_world (sample_parser\<lparr>manufPath := ''locked.gz''\<rparr>))
     = Inl (SysError ''EACCES'')"
    using parseManuf_all_or_nothing
      [of sample_gunzip sample_world "sample_parser\<lparr>manufPath := ''locked.gz''\<rparr>"
          "SysError ''EACCES''"] rc'
    by blast
  have short: "length (line_parts (js_trim ''lonely'')) < 2" by code_simp
  have skip: "build_index [''lonely'', ''00:1B:C5 IEEE''] [] = build_index [''00:1B:C5 IEEE''] []"
    using parseManuf_all_or_nothing [where rawLine = "''lonely''" and rest = "[''00:1B:C5 IEEE'']"
        and acc = "[]"] short
    by blast
  show ?thesis by (intro conjI r1 same rc locked short skip s1 whole)
qed




text \<open>
  C9 (amended). In every index that \<open>_parseManuf\<close> builds, no two entries share the
  same bit count and value, and every entry stored under a numeric bit count \<open>n\<close> has a
  value from 0 up to, and not including, \<open>2 ^ n\<close> (0 for a negative \<open>n\<close>). The bit count
  itself is what the line gives: it is not checked against the range 1 to 48.
\<close>

theorem parseManuf_index_invariant:
  assumes "parseManuf gunzip w p = (Inr u, p', w')"
  shows "distinct (map fst (entries p')) \<and>
         (\<forall>b inner. (b, inner) \<in> set (entries p') \<longrightarrow>
            distinct (map fst inner) \<and>
            (\<forall>v e n. (v, e) \<in> set inner \<and> b = Num n \<longrightarrow> 0 \<le> v \<and> v < 2 ^ nat n))"
proof -
  obtain tx byBits where b: "build_index (split_lines tx) [] = Inr byBits"
    and p': "p' = p\<lparr>entries := byBits, sortedLens := js_sort (map fst byBits)\<rparr>"
    using parseManuf_InrD [OF assms] by blast
  have ok: "index_ok byBits" using build_index_ok [OF index_ok_Nil b] .
  have e: "entries p' = byBits" using p' by simp
  show ?thesis
  proof (intro conjI allI impI)
    show "distinct (map fst (entries p'))" using ok e by (simp add: index_ok_def)
  next
    fix b inner
    assume "(b, inner) \<in> set (entries p')"
    then show "distinct (map fst inner)" using index_okD [OF ok] e by blast
  next
    fix b inner v e' n
    assume "(b, inner) \<in> set (entries p')" and "(v, e') \<in> set inner \<and> b = Num n"
    then have "fits (Num n) v" using index_okD [OF ok] e by blast
    then show "0 \<le> v" "v < 2 ^ nat n" by (simp_all add: fits_def)
  qed
qed

text \<open>The 36-bit entry of the sample index.\<close>

theorem parseManuf_index_invariant_witness:
  "fst (parseManuf sample_gunzip sample_world (new_parser ''manuf.gz'')) = Inr () \<and>
   (Num 36, [(29118464, converging)])
     \<in> set (entries (fst (snd (parseManuf sample_gunzip sample_world (new_parser ''manuf.gz''))))) \<and>
   distinct (map fst
     (entries (fst (snd (parseManuf sample_gunzip sample_world (new_parser ''manuf.gz'')))))) \<and>
   (0::int) \<le> 29118464 \<and> (29118464::int) < 2 ^ nat 36"
proof -
  let ?run = "parseManuf sample_gunzip sample_world (new_parser ''manuf.gz'')"
  have r1: "fst ?run = Inr ()" by code_simp
  have run: "?run = (Inr (), fst (snd ?run), snd (snd ?run))"
    using r1 by (metis prod.collapse)
  have mem: "(Num 36, [(29118464, converging)]) \<in> set (entries (fst (snd ?run)))"
    by code_simp
  note inv = parseManuf_index_invariant [OF run]
  have d: "distinct (map fst (entries (fst (snd ?run))))" using inv by blast
  have "(29118464, converging) \<in> set [(29118464, converging)] \<and> Num 36 = Num 36"
    by simp
  then have "(0::int) \<le> 29118464 \<and> (29118464::int) < 2 ^ nat 36"
    using inv mem by blast
  then show ?thesis using r1 mem d by blast
qed

text \<open>
  C9 as stated fails on the line \<open>00:00:0C/64\<close>: the entry is stored under the bit
  count 64, outside 1 to 48.
\<close>

theorem parseManuf_wide_prefix_counterexample:
  "fst (parseManuf sample_gunzip sample_world (new_parser ''wide.gz'')) = Inr () \<and>
   entries (fst (snd (parseManuf sample_gunzip sample_world (new_parser ''wide.gz''))))
     = [(Num 64, [(13194139533312, \<lparr>prefix = ''00:00:0C/64'', vendor = ''Cisco'', comment = []\<rparr>)])] \<and>
   \<not> (1 \<le> (64::int) \<and> (64::int) \<le> 48)"
  by code_simp

section \<open>The downloader\<close>

text \<open>
  C2. In every run of \<open>_downloadFile\<close> the only path that \<open>writeFile\<close> is called on is
  the temporary path, the destination path with \<open>.tmp-\<close> and the clock's digits appended,
  which differs from the destination and, for a destination that does not end in a slash,
  lies in the destination's directory; the only rename is the one of the temporary path
  over the destination, and a run that succeeds makes it. When the run raises an error,
  the destination file is what it was before, as is every file but the temporary one.
  When it succeeds, the destination holds the payload.
\<close>

theorem downloadFile_atomic_replace:
  "(\<exists>ops. io_log (snd (downloadFile ev d opts w)) = io_log w @ ops \<and>
      (\<forall>p c. WriteFile p c \<in> set ops \<longrightarrow> p = tmp_path ev d) \<and>
      (\<forall>a b. Rename a b \<in> set ops \<longrightarrow> a = tmp_path ev d \<and> b = filePath d) \<and>
      (fst (downloadFile ev d opts w) = Inr () \<longrightarrow>
         Rename (tmp_path ev d) (filePath d) \<in> set ops)) \<and>
   tmp_path ev d \<noteq> filePath d \<and>
   (filePath d \<noteq> [] \<and> last (filePath d) \<noteq> CHR ''/'' \<longrightarrow>
      dirname (tmp_path ev d) = dirname (filePath d)) \<and>
   (\<forall>err. fst (downloadFile ev d opts w) = Inl err \<longrightarrow>
      files (snd (downloadFile ev d opts w)) (filePath d) = files w (filePath d) \<and>
      (\<forall>q. q \<noteq> tmp_path ev d \<longrightarrow> files (snd (downloadFile ev d opts w)) q = files w q)) \<and>
   (fst (downloadFile ev d opts w) = Inr () \<longrightarrow>
      (\<exists>body. fetch_body ev = Inr body \<and>
         map_option content (files (snd (downloadFile ev d opts w)) (filePath d)) = Some body \<and>
         files (snd (downloadFile ev d opts w)) (tmp_path ev d) = None))"
proof -
  define w0 where "w0 = do_io (HttpGet (url d)) (log_line ''debug'' ''Downloading file'' w)"
  have w0: "files w0 = files w" "io_log w0 = io_log w @ [HttpGet (url d)]"
    by (simp_all add: w0_def world_steps)
  note unf = downloadFile_unfold [of ev d opts w, folded w0_def]
  have neq: "tmp_path ev d \<noteq> filePath d" by (rule tmp_path_neq)
  have dir: "filePath d \<noteq> [] \<and> last (filePath d) \<noteq> CHR ''/'' \<longrightarrow>
      dirname (tmp_path ev d) = dirname (filePath d)"
    using tmp_path_dirname by blast
  let ?run = "downloadFile ev d opts w"
  have log: "\<exists>ops. io_log (snd ?run) = io_log w @ ops \<and>
      (\<forall>p c. WriteFile p c \<in> set ops \<longrightarrow> p = tmp_path ev d) \<and>
      (\<forall>a b. Rename a b \<in> set ops \<longrightarrow> a = tmp_path ev d \<and> b = filePath d) \<and>
      (fst ?run = Inr () \<longrightarrow> Rename (tmp_path ev d) (filePath d) \<in> set ops)"
    and err: "\<forall>err. fst ?run = Inl err \<longrightarrow>
      files (snd ?run) (filePath d) = files w (filePath d) \<and>
      (\<forall>q. q \<noteq> tmp_path ev d \<longrightarrow> files (snd ?run) q = files w q)"
    and ok: "fst ?run = Inr () \<longrightarrow>
      (\<exists>body. fetch_body ev = Inr body \<and>
         map_option content (files (snd ?run) (filePath d)) = Some body \<and>
         files (snd ?run) (tmp_path ev d) = None)"
  proof -
    show "\<exists>ops. io_log (snd ?run) = io_log w @ ops \<and>
      (\<forall>p c. WriteFile p c \<in> set ops \<longrightarrow> p = tmp_path ev d) \<and>
      (\<forall>a b. Rename a b \<in> set ops \<longrightarrow> a = tmp_path ev d \<and> b = filePath d) \<and>
      (fst ?run = Inr () \<longrightarrow> Rename (tmp_path ev d) (filePath d) \<in> set ops)"
    proof (cases "fetch_body ev")
      case (Inl e)
      then have run: "?run = fail_stage opts d e StageDownload ''Download failed'' w0"
        by (simp add: unf)
      have "io_log (snd ?run) = io_log w @ [HttpGet (url d)]" "fst ?run = Inl e"
        unfolding run by (simp_all add: fail_stage_simps w0)
      then show ?thesis by (intro exI [of _ "[HttpGet (url d)]"]) simp
    next
      case (Inr body)
      define r where "r = write_to_disk ev d body w0"
      obtain ops where o1: "io_log (snd r) = io_log w0 @ ops"
        and o2: "\<forall>p c. WriteFile p c \<in> set ops \<longrightarrow> p = tmp_path ev d \<and> c = body"
        and o3: "\<forall>a b. Rename a b \<in> set ops \<longrightarrow> a = tmp_path ev d \<and> b = filePath d"
        and o4: "fst r = Inr () \<longrightarrow> Rename (tmp_path ev d) (filePath d) \<in> set ops"
        using write_to_disk_frame [of ev d body w0] unfolding r_def by blast
      have io: "io_log (snd ?run) = io_log (snd r)"
        using Inr
        by (cases "fst r")
           (simp_all add: unf r_def fail_stage_simps world_steps)
      have res: "fst ?run = Inr () \<longrightarrow> fst r = Inr ()"
        using Inr
        by (cases "fst r")
           (simp_all add: unf r_def fail_stage_simps)
      have a: "io_log (snd ?run) = io_log w @ (HttpGet (url d) # ops)"
        using io o1 w0(2) by simp
      have b: "\<forall>p c. WriteFile p c \<in> set (HttpGet (url d) # ops) \<longrightarrow> p = tmp_path ev d"
        using o2 by auto
      have c: "\<forall>a b. Rename a b \<in> set (HttpGet (url d) # ops) \<longrightarrow>
          a = tmp_path ev d \<and> b = filePath d"
        using o3 by auto
      have e: "fst ?run = Inr () \<longrightarrow>
          Rename (tmp_path ev d) (filePath d) \<in> set (HttpGet (url d) # ops)"
        using o4 res by auto
      show ?thesis
        by (rule exI [of _ "HttpGet (url d) # ops"]) (intro conjI a b c e)
    qed
  next
    show "\<forall>err. fst ?run = Inl err \<longrightarrow>
      files (snd ?run) (filePath d) = files w (filePath d) \<and>
      (\<forall>q. q \<noteq> tmp_path ev d \<longrightarrow> files (snd ?run) q = files w q)"
    proof (intro allI impI)
      fix err
      assume fails: "fst ?run = Inl err"
      have keep: "\<forall>q. q \<noteq> tmp_path ev d \<longrightarrow> files (snd ?run) q = files w q"
      proof (cases "fetch_body ev")
        case (Inl e)
        then have "?run = fail_stage opts d e StageDownload ''Download failed'' w0"
          by (simp add: unf)
        then show ?thesis by (simp add: fail_stage_simps w0)
      next
        case (Inr body)
        define r where "r = write_to_disk ev d body w0"
        obtain e where e: "fst r = Inl e"
          using fails Inr
          by (cases "fst r") (simp_all add: unf r_def fail_stage_simps)
        have "files (snd ?run) = files (snd r)"
          using Inr e
          by (simp add: unf r_def fail_stage_simps)
        moreover have "\<forall>q. q \<noteq> tmp_path ev d \<longrightarrow> files (snd r) q = files w0 q"
          using write_to_disk_files_error [of ev d body w0 e] e unfolding r_def by blast
        ultimately show ?thesis using w0(1) by simp
      qed
      then show "files (snd ?run) (filePath d) = files w (filePath d) \<and>
        (\<forall>q. q \<noteq> tmp_path ev d \<longrightarrow> files (snd ?run) q = files w q)"
        using neq by metis
    qed
  next
    show "fst ?run = Inr () \<longrightarrow>
      (\<exists>body. fetch_body ev = Inr body \<and>
         map_option content (files (snd ?run) (filePath d)) = Some body \<and>
         files (snd ?run) (tmp_path ev d) = None)"
    proof
      assume succ: "fst ?run = Inr ()"
      obtain body where body: "fetch_body ev = Inr body"
        using succ
        by (cases "fetch_body ev") (simp_all add: unf fail_stage_simps)
      define r where "r = write_to_disk ev d body w0"
      have u: "fst r = Inr ()"
        using succ body
        by (cases "fst r")
           (simp_all add: unf r_def fail_stage_simps)
      have "files (snd ?run) = files (snd r)"
        using body u
        by (simp add: unf r_def world_steps)
      moreover have "map_option content (files (snd r) (filePath d)) = Some body"
        "files (snd r) (tmp_path ev d) = None"
        using write_to_disk_files_ok [of ev d body w0 "()"] u unfolding r_def by simp_all
      ultimately show "\<exists>body. fetch_body ev = Inr body \<and>
         map_option content (files (snd ?run) (filePath d)) = Some body \<and>
         files (snd ?run) (tmp_path ev d) = None"
        using body by simp
    qed
  qed
  show ?thesis by (intro conjI log neq dir err ok)
qed

text \<open>
  A \<open>writeFile\<close> that fails after two bytes leaves them in the temporary file and the old
  content in the destination; a run without failure puts the payload in the destination.
\<close>

theorem downloadFile_atomic_replace_witness:
  "fst (downloadFile failing_env sample_downloader default_opts sample_world)
     = Inl (SysError ''ENOSPC'') \<and>
   files (snd (downloadFile failing_env sample_downloader default_opts sample_world))
     ''data/manuf.gz'' = Some (sample_file ''OLD'') \<and>
   map_option content
     (files (snd (downloadFile failing_env sample_downloader default_opts sample_world))
        ''data/manuf.gz.tmp-1001'') = Some ''NE'' \<and>
   tmp_path failing_env sample_downloader = ''data/manuf.gz.tmp-1001'' \<and>
   filePath sample_downloader \<noteq> [] \<and> last (filePath sample_downloader) \<noteq> CHR ''/'' \<and>
   dirname (tmp_path failing_env sample_downloader) = dirname (filePath sample_downloader) \<and>
   fst (downloadFile sample_env sample_downloader default_opts sample_world) = Inr () \<and>
   map_option content
     (files (snd (downloadFile sample_env sample_downloader default_opts sample_world))
        ''data/manuf.gz'') = Some ''NEW''"
proof -
  let ?bad = "downloadFile failing_env sample_downloader default_opts sample_world"
  let ?good = "downloadFile sample_env sample_downloader default_opts sample_world"
  note bad = downloadFile_atomic_replace [of failing_env sample_downloader default_opts sample_world]
  note good = downloadFile_atomic_replace [of sample_env sample_downloader default_opts sample_world]
  have b1: "fst ?bad = Inl (SysError ''ENOSPC'')" by code_simp
  have fp: "filePath sample_downloader = ''data/manuf.gz''" by (simp add: sample_downloader_def)
  have old: "files sample_world ''data/manuf.gz'' = Some (sample_file ''OLD'')" by code_simp
  have "files (snd ?bad) (filePath sample_downloader) = files sample_world (filePath sample_downloader)"
    using bad b1 by blast
  then have b2: "files (snd ?bad) ''data/manuf.gz'' = Some (sample_file ''OLD'')"
    using fp old by simp
  have b3: "map_option content (files (snd ?bad) ''data/manuf.gz.tmp-1001'') = Some ''NE''"
    by code_simp
  have t: "tmp_path failing_env sample_downloader = ''data/manuf.gz.tmp-1001''" by code_simp
  have n1: "filePath sample_downloader \<noteq> []" and n2: "last (filePath sample_downloader) \<noteq> CHR ''/''"
    by (simp_all add: fp)
  have dn: "dirname (tmp_path failing_env sample_downloader) = dirname (filePath sample_downloader)"
    using bad n1 n2 by blast
  have g1: "fst ?good = Inr ()" by code_simp
  have fb: "fetch_body sample_env = Inr ''NEW''" by code_simp
  have "\<exists>body. fetch_body sample_env = Inr body \<and>
      map_option content (files (snd ?good) (filePath sample_downloader)) = Some body"
    using good g1 by blast
  then have g2: "map_option content (files (snd ?good) ''data/manuf.gz'') = Some ''NEW''"
    using fb fp by auto
  show ?thesis by (intro conjI b1 b2 b3 t n1 n2 dn g1 g2)
qed

text \<open>
  C7. \<open>_isExpired\<close> returns true when \<open>stat\<close> of the destination fails with ENOENT (the
  file is missing), raises the error when \<open>stat\<close> fails with another code, and for a file
  that is there returns whether its \<open>mtime\<close> is earlier than the last trigger time that
  cron-parser computes from the current date (an error of cron-parser is raised as
  well). It returns true in no other case, and it changes no file.
\<close>

theorem isExpired_cases:
  "(stat_fault ev = None \<and> files w (filePath d) = None \<longrightarrow> fst (isExpired ev d w) = Inr True) \<and>
   (stat_fault ev = Some err \<and> error_code err = Some ''ENOENT'' \<longrightarrow>
      fst (isExpired ev d w) = Inr True) \<and>
   (stat_fault ev = Some err \<and> error_code err \<noteq> Some ''ENOENT'' \<longrightarrow>
      fst (isExpired ev d w) = Inl err) \<and>
   (stat_fault ev = None \<and> files w (filePath d) = Some f \<and>
    cron_prev ev (cron d) (now_check ev) = Inr lastDue \<longrightarrow>
      fst (isExpired ev d w) = Inr (mtime f < lastDue)) \<and>
   (stat_fault ev = None \<and> files w (filePath d) = Some f \<and>
    cron_prev ev (cron d) (now_check ev) = Inl err \<longrightarrow>
      fst (isExpired ev d w) = Inl err) \<and>
   (fst (isExpired ev d w) = Inr True \<longleftrightarrow>
      (\<exists>e. fst (js_stat ev w (filePath d)) = Inl e \<and> error_code e = Some ''ENOENT'') \<or>
      (\<exists>mt due. fst (js_stat ev w (filePath d)) = Inr mt \<and>
         cron_prev ev (cron d) (now_check ev) = Inr due \<and> mt < due)) \<and>
   files (snd (isExpired ev d w)) = files w"
  by (auto simp: isExpired_def js_stat_def error_code_def world_steps
      split: option.splits sum.splits prod.splits js_error.splits if_splits)

text \<open>
  The sample file, last modified at 500: stale at 1000 (last trigger 1000), fresh at 599
  (last trigger 500); a missing file is stale; an EACCES from \<open>stat\<close> is raised, an
  ENOENT from \<open>stat\<close> means stale, and an expression that cron-parser rejects raises.
\<close>

theorem isExpired_cases_witness:
  "fst (isExpired sample_env sample_downloader sample_world) = Inr True \<and>
   fst (isExpired (sample_env\<lparr>now_check := 599\<rparr>) sample_downloader sample_world) = Inr False \<and>
   fst (isExpired sample_env (sample_downloader\<lparr>filePath := ''data/none.gz''\<rparr>) sample_world)
     = Inr True \<and>
   fst (isExpired (sample_env\<lparr>stat_fault := Some (SysError ''EACCES'')\<rparr>)
          sample_downloader sample_world) = Inl (SysError ''EACCES'') \<and>
   fst (isExpired (sample_env\<lparr>stat_fault := Some (SysError ''ENOENT'')\<rparr>)
          sample_downloader sample_world) = Inr True \<and>
   fst (isExpired sample_env (sample_downloader\<lparr>cron := ''bad''\<rparr>) sample_world)
     = Inl SyntaxError"
proof -
  let ?ev5 = "sample_env\<lparr>stat_fault := Some (SysError ''ENOENT'')\<rparr>"
  have e5: "error_code (SysError ''ENOENT'') = Some ''ENOENT''" by code_simp
  have gone: "fst (isExpired ?ev5 sample_downloader sample_world) = Inr True"
    using isExpired_cases [where ev = ?ev5 and err = "SysError ''ENOENT''" and w = sample_world
        and d = sample_downloader] e5
    by simp
  let ?d6 = "sample_downloader\<lparr>cron := ''bad''\<rparr>"
  have f6: "files sample_world (filePath ?d6) = Some (sample_file ''OLD'')" by code_simp
  have c6: "cron_prev sample_env (cron ?d6) (now_check sample_env) = Inl SyntaxError"
    by code_simp
  have bad: "fst (isExpired sample_env ?d6 sample_world) = Inl SyntaxError"
    using isExpired_cases [where ev = sample_env and w = sample_world and d = ?d6
        and f = "sample_file ''OLD''" and err = SyntaxError] f6 c6
    by (simp add: sample_env_def)
  have f: "files sample_world (filePath sample_downloader) = Some (sample_file ''OLD'')"
    by code_simp
  have c1: "cron_prev sample_env (cron sample_downloader) (now_check sample_env) = Inr 1000"
    by code_simp
  have "fst (isExpired sample_env sample_downloader sample_world)
      = Inr (mtime (sample_file ''OLD'') < 1000)"
    using isExpired_cases [where ev = sample_env and w = sample_world and d = sample_downloader
        and f = "sample_file ''OLD''" and lastDue = 1000]
      f c1 by (simp add: sample_env_def)
  then have a: "fst (isExpired sample_env sample_downloader sample_world) = Inr True"
    by (simp add: sample_file_def)
  let ?ev2 = "sample_env\<lparr>now_check := 599\<rparr>"
  have c2: "cron_prev ?ev2 (cron sample_downloader) (now_check ?ev2) = Inr 500"
    by code_simp
  have "fst (isExpired ?ev2 sample_downloader sample_world)
      = Inr (mtime (sample_file ''OLD'') < 500)"
    using isExpired_cases [where ev = ?ev2 and w = sample_world and d = sample_downloader
        and f = "sample_file ''OLD''" and lastDue = 500]
      f c2 by (simp add: sample_env_def)
  then have b: "fst (isExpired ?ev2 sample_downloader sample_world) = Inr False"
    by (simp add: sample_file_def)
  let ?d3 = "sample_downloader\<lparr>filePath := ''data/none.gz''\<rparr>"
  have f3: "files sample_world (filePath ?d3) = None" by code_simp
  have c: "fst (isExpired sample_env ?d3 sample_world) = Inr True"
    using isExpired_cases [where ev = sample_env and w = sample_world and d = ?d3] f3
    by (simp add: sample_env_def)
  let ?ev4 = "sample_env\<lparr>stat_fault := Some (SysError ''EACCES'')\<rparr>"
  have e4: "error_code (SysError ''EACCES'') \<noteq> Some ''ENOENT''" by code_simp
  have d: "fst (isExpired ?ev4 sample_downloader sample_world) = Inl (SysError ''EACCES'')"
    using isExpired_cases [where ev = ?ev4 and err = "SysError ''EACCES''" and w = sample_world
        and d = sample_downloader] e4
    by simp
  show ?thesis by (intro conjI a b c d gone bad)
qed

text \<open>
  C10. The result of \<open>_downloadFile\<close> does not depend on its option \<open>emitUpdate\<close>: every
  run that succeeds emits \<open>updated\<close>. So does the download that \<open>init\<close> performs, with
  \<open>emitUpdate: false\<close>, when the file is stale.
\<close>

theorem downloadFile_ignores_emitUpdate:
  "downloadFile ev d (opts\<lparr>emitUpdate := b\<rparr>) w = downloadFile ev d opts w \<and>
   (fst (downloadFile ev d opts w) = Inr () \<longrightarrow>
      emitted (snd (downloadFile ev d opts w))
        = emitted w @ [Updated (filePath d) (url d) (now_done ev)]) \<and>
   (fst (isExpired ev d w) = Inr True \<and>
    fst (downloadFile ev d \<lparr>emitErrors = \<not> throwErrorsOnInit d, emitUpdate = False\<rparr>
           (snd (isExpired ev d w))) = Inr () \<longrightarrow>
      fst (downloader_init ev d w) = Inr () \<and>
      emitted (snd (snd (downloader_init ev d w)))
        = emitted w @ [Updated (filePath d) (url d) (now_done ev)])"
proof (intro conjI impI)
  show "downloadFile ev d (opts\<lparr>emitUpdate := b\<rparr>) w = downloadFile ev d opts w"
    by (auto simp: downloadFile_def fail_stage_def Let_def split: sum.splits prod.splits)
next
  assume "fst (downloadFile ev d opts w) = Inr ()"
  then show "emitted (snd (downloadFile ev d opts w))
        = emitted w @ [Updated (filePath d) (url d) (now_done ev)]"
    by (rule downloadFile_emitted_ok)
next
  let ?o = "\<lparr>emitErrors = \<not> throwErrorsOnInit d, emitUpdate = False\<rparr>"
  assume a: "fst (isExpired ev d w) = Inr True \<and>
    fst (downloadFile ev d ?o (snd (isExpired ev d w))) = Inr ()"
  have e0: "emitted (snd (isExpired ev d w)) = emitted w"
    by (auto simp: isExpired_def js_stat_def world_steps
        split: option.splits sum.splits prod.splits if_splits)
  have run: "downloader_init ev d w =
      init_schedule d (snd (downloadFile ev d ?o (snd (isExpired ev d w))))"
    using a
    by (cases "isExpired ev d w"; cases "downloadFile ev d ?o (snd (isExpired ev d w))")
       (simp add: downloader_init_def init_download_def)
  show "fst (downloader_init ev d w) = Inr ()"
    by (simp add: run init_schedule_def)
  show "emitted (snd (snd (downloader_init ev d w)))
        = emitted w @ [Updated (filePath d) (url d) (now_done ev)]"
    using a downloadFile_emitted_ok [of ev d ?o "snd (isExpired ev d w)"] e0
    by (simp add: run init_schedule_def world_steps)
qed

text \<open>The sample downloader's \<open>init\<close> on the stale sample file emits \<open>updated\<close>.\<close>

theorem downloadFile_ignores_emitUpdate_witness:
  "fst (isExpired sample_env sample_downloader sample_world) = Inr True \<and>
   fst (downloadFile sample_env sample_downloader
          \<lparr>emitErrors = \<not> throwErrorsOnInit sample_downloader, emitUpdate = False\<rparr>
          (snd (isExpired sample_env sample_downloader sample_world))) = Inr () \<and>
   fst (downloader_init sample_env sample_downloader sample_world) = Inr () \<and>
   emitted (snd (snd (downloader_init sample_env sample_downloader sample_world)))
     = [Updated ''data/manuf.gz'' ''https://example.org/manuf.gz'' 1002]"
proof -
  have x: "fst (isExpired sample_env sample_downloader sample_world) = Inr True" by code_simp
  have y: "fst (downloadFile sample_env sample_downloader
          \<lparr>emitErrors = \<not> throwErrorsOnInit sample_downloader, emitUpdate = False\<rparr>
          (snd (isExpired sample_env sample_downloader sample_world))) = Inr ()" by code_simp
  note t = downloadFile_ignores_emitUpdate [where ev = sample_env and d = sample_downloader
      and w = sample_world]
  have r: "fst (downloader_init sample_env sample_downloader sample_world) = Inr ()"
    using t x y by blast
  have "emitted (snd (snd (downloader_init sample_env sample_downloader sample_world)))
     = emitted sample_world @ [Updated (filePath sample_downloader) (url sample_downloader)
          (now_done sample_env)]"
    using t x y by blast
  then have e: "emitted (snd (snd (downloader_init sample_env sample_downloader sample_world)))
     = [Updated ''data/manuf.gz'' ''https://example.org/manuf.gz'' 1002]"
    by (simp add: sample_world_def sample_downloader_def sample_env_def)
  show ?thesis by (intro conjI x y r e)
qed

end
